theory Spec2Isabelle
  imports Main "HOL-Library.Word" "HOL-Library.AList"
begin

unbundle bit_operations_syntax

section \<open>Field encryption service and persistence hook of \<open>src/lib/prisma.ts\<close>\<close>

text \<open>
  The development embeds the class \<open>EncryptionService\<close> (\<open>encrypt\<close>, \<open>decrypt\<close>,
  \<open>encryptObject\<close>, \<open>decryptObject\<close>, \<open>isEncrypted\<close>) and the function
  \<open>createEncryptionMiddleware\<close>. The Node.js library the code calls (\<open>crypto\<close>:
  \<open>randomBytes\<close>, \<open>scrypt\<close>, \<open>createCipher\<close>, \<open>createDecipher\<close>) is not part of the
  repository: it is a parameter of every operation (the record \<open>platform\<close> below), and
  what a theorem needs of it is a stated premise. The two \<open>Buffer\<close> encodings the code
  uses, \<open>hex\<close> and \<open>base64\<close>, are written out.

  How the code is read:
  \<^item> an \<open>async\<close> function is the sequence of its steps: every \<open>await\<close> is waited for
    before the next statement runs, and a rejected promise is a thrown error;
  \<^item> a function that can throw returns \<open>error + 'a\<close>, \<open>Inl\<close> being the throw; a
    \<open>try\<close>/\<open>catch\<close> is a case distinction on that result;
  \<^item> the effects (random bytes drawn, calls into \<open>crypto\<close>, \<open>console.error\<close>, the call of
    the storage) are recorded in a state that every operation takes and returns, also
    when it throws;
  \<^item> \<open>process.env.ENCRYPTION_KEY\<close>, read at every call, is the argument \<open>env_key\<close>;
  \<^item> an object that the code mutates in place (\<open>params.args.data\<close>, an item of a read
    result) is returned in its new state; no claim depends on who else holds it.
\<close>

subsection \<open>Bytes and the Buffer encodings\<close>

type_synonym byte = "8 word"

text \<open>
  A JavaScript string is modelled as a \<open>string\<close>: one \<open>char\<close> per code unit, for the
  code units below 256. All keys, messages and encoded blobs of the code are ASCII.
\<close>

definition hex_chars :: string where
  "hex_chars = ''0123456789abcdef''"

definition hex_digit :: "nat \<Rightarrow> char" where
  "hex_digit n = hex_chars ! (n mod 16)"

text \<open>\<open>buf.toString('hex')\<close>: two lower-case digits per byte.\<close>

fun to_hex :: "byte list \<Rightarrow> string" where
  "to_hex [] = []"
| "to_hex (b # bs) = hex_digit (unat b div 16) # hex_digit (unat b mod 16) # to_hex bs"

definition hex_val :: "char \<Rightarrow> nat option" where
  "hex_val c =
     (let n = (of_char c :: nat) in
      if 48 \<le> n \<and> n \<le> 57 then Some (n - 48)
      else if 97 \<le> n \<and> n \<le> 102 then Some (n - 87)
      else if 65 \<le> n \<and> n \<le> 70 then Some (n - 55)
      else None)"

text \<open>
  \<open>Buffer.from(s, 'hex')\<close>: pairs of hexadecimal digits, decoding stops at the first
  pair that is not one; a trailing single character is dropped.
\<close>

fun from_hex :: "string \<Rightarrow> byte list" where
  "from_hex (a # b # rest) =
     (case hex_val a of
        None \<Rightarrow> []
      | Some x \<Rightarrow>
          (case hex_val b of
             None \<Rightarrow> []
           | Some y \<Rightarrow> of_nat (16 * x + y) # from_hex rest))"
| "from_hex [a] = []"
| "from_hex [] = []"

text \<open>
  The base64 alphabet \<open>A\<dots>Z a\<dots>z 0\<dots>9 + /\<close>, by character code: the digit of a
  6-bit value.
\<close>

definition b64_char :: "nat \<Rightarrow> char" where
  "b64_char n =
     (if n < 26 then char_of (n + 65)
      else if n < 52 then char_of (n + 71)
      else if n < 62 then char_of (n - 4)
      else if n = 62 then CHR ''+''
      else CHR ''/'')"

text \<open>
  \<open>buf.toString('base64')\<close>: RFC 4648 with the standard alphabet and \<open>=\<close> padding.
\<close>

fun to_base64 :: "byte list \<Rightarrow> string" where
  "to_base64 (a # b # c # rest) =
     b64_char (unat a div 4)
     # b64_char ((unat a mod 4) * 16 + unat b div 16)
     # b64_char ((unat b mod 16) * 4 + unat c div 64)
     # b64_char (unat c mod 64)
     # to_base64 rest"
| "to_base64 [a, b] =
     [b64_char (unat a div 4),
      b64_char ((unat a mod 4) * 16 + unat b div 16),
      b64_char ((unat b mod 16) * 4),
      CHR ''='']"
| "to_base64 [a] =
     [b64_char (unat a div 4),
      b64_char ((unat a mod 4) * 16),
      CHR ''='',
      CHR ''='']"
| "to_base64 [] = []"

definition b64_val :: "char \<Rightarrow> nat option" where
  "b64_val c =
     (let n = (of_char c :: nat) in
      if 65 \<le> n \<and> n \<le> 90 then Some (n - 65)
      else if 97 \<le> n \<and> n \<le> 122 then Some (n - 71)
      else if 48 \<le> n \<and> n \<le> 57 then Some (n + 4)
      else if n = 43 \<or> n = 45 then Some 62
      else if n = 47 \<or> n = 95 then Some 63
      else None)"

text \<open>
  \<open>Buffer.from(s, 'base64')\<close> is forgiving and never throws on a string: characters
  outside the alphabet (white space among them) are skipped, the URL-safe \<open>-\<close> and \<open>_\<close>
  are accepted, and decoding stops at the first \<open>=\<close>. The 6-bit values that remain
  are regrouped into bytes; an incomplete last group gives the bytes it fully covers.
\<close>

fun b64_sextets :: "string \<Rightarrow> nat list" where
  "b64_sextets [] = []"
| "b64_sextets (c # cs) =
     (if c = CHR ''='' then []
      else (case b64_val c of
              None \<Rightarrow> b64_sextets cs
            | Some v \<Rightarrow> v # b64_sextets cs))"

fun b64_bytes :: "nat list \<Rightarrow> byte list" where
  "b64_bytes (p # q # r # s # rest) =
     of_nat (p * 4 + q div 16)
     # of_nat ((q mod 16) * 16 + r div 4)
     # of_nat ((r mod 4) * 64 + s)
     # b64_bytes rest"
| "b64_bytes [p, q, r] =
     [of_nat (p * 4 + q div 16), of_nat ((q mod 16) * 16 + r div 4)]"
| "b64_bytes [p, q] = [of_nat (p * 4 + q div 16)]"
| "b64_bytes [p] = []"
| "b64_bytes [] = []"

definition from_base64 :: "string \<Rightarrow> byte list" where
  "from_base64 s = b64_bytes (b64_sextets s)"

subsection \<open>JavaScript values, errors and effects\<close>

text \<open>
  The values that flow through the service: field values of a record, write payloads
  and read results are \<open>any\<close> in the source. An object is its list of own properties
  in insertion order.
\<close>

datatype jsval =
    JUndefined
  | JNull
  | JBool bool
  | JNum int
  | JStr string
  | JObj "(string \<times> jsval) list"
  | JArr "jsval list"

text \<open>JavaScript truthiness, as used by \<open>if (v)\<close>, \<open>!v\<close> and \<open>v && \<dots>\<close>.\<close>

fun truthy :: "jsval \<Rightarrow> bool" where
  "truthy JUndefined = False"
| "truthy JNull = False"
| "truthy (JBool b) = b"
| "truthy (JNum n) = (n \<noteq> 0)"
| "truthy (JStr s) = (s \<noteq> [])"
| "truthy (JObj ps) = True"
| "truthy (JArr xs) = True"

text \<open>\<open>typeof v === 'string'\<close>.\<close>

fun is_string :: "jsval \<Rightarrow> bool" where
  "is_string (JStr s) = True"
| "is_string v = False"

text \<open>
  \<open>v[k]\<close> for a value that is neither \<open>undefined\<close> nor \<open>null\<close>, and a key of the
  kind the code uses (a field name, never \<open>length\<close> or an index): the own property of
  an object, \<open>undefined\<close> otherwise. Inherited properties are left out: they are
  functions or objects, which \<open>encryptObject\<close> skips as it skips \<open>undefined\<close>, and no
  other read of the code can name one. \<open>v[k] = x\<close> and \<open>delete v[k]\<close> are reached only
  after \<open>v[k']\<close> was truthy, so only on objects.
\<close>

fun get_prop :: "jsval \<Rightarrow> string \<Rightarrow> jsval" where
  "get_prop (JObj ps) k = (case map_of ps k of None \<Rightarrow> JUndefined | Some v \<Rightarrow> v)"
| "get_prop v k = JUndefined"

fun set_prop :: "jsval \<Rightarrow> string \<Rightarrow> jsval \<Rightarrow> jsval" where
  "set_prop (JObj ps) k x = JObj (AList.update k x ps)"
| "set_prop v k x = v"

fun delete_prop :: "jsval \<Rightarrow> string \<Rightarrow> jsval" where
  "delete_prop (JObj ps) k = JObj (AList.delete k ps)"
| "delete_prop v k = v"

text \<open>
  What is thrown: \<open>new Error(message)\<close> by the service, a \<open>TypeError\<close> by the language
  or by an argument check of the library, and whatever a \<open>crypto\<close> primitive throws.
\<close>

datatype error = Error string | TypeError string | LibraryError

text \<open>The interface \<open>EncryptedData\<close> of \<open>src/types/global.ts\<close>.\<close>

record encrypted_data =
  encrypted :: string
  authTag :: string
  iv :: string


text \<open>
  The \<open>params\<close> a Prisma middleware receives, with the fields the hook reads.
  \<open>model\<close> is \<open>undefined\<close> for raw queries.
\<close>

record params =
  model :: "string option"
  action :: string
  args :: jsval

text \<open>
  The effects of a call, in order: every call into \<open>crypto\<close>, every \<open>console.error\<close>
  (by its first argument) and the call of \<open>next\<close>, the storage operation the hook wraps.
\<close>

datatype event =
    EvRandomBytes nat
  | EvScrypt
  | EvCreateCipher
  | EvGetAuthTag
  | EvCreateDecipher
  | EvSetAuthTag
  | EvConsoleError string
  | EvNext params

fun is_cipher_op :: "event \<Rightarrow> bool" where
  "is_cipher_op (EvConsoleError m) = False"
| "is_cipher_op (EvNext p) = False"
| "is_cipher_op e = True"

fun is_next :: "event \<Rightarrow> bool" where
  "is_next (EvNext p) = True"
| "is_next e = False"

text \<open>
  The state threaded through the calls: how many bytes of the random source have been
  drawn, and the effects so far.
\<close>

record world =
  drawn :: nat
  events :: "event list"

definition emit :: "event \<Rightarrow> world \<Rightarrow> world" where
  "emit e w = w\<lparr>events := events w @ [e]\<rparr>"

subsection \<open>The \<open>crypto\<close> library as a parameter\<close>

text \<open>Outcome of \<open>cipher.getAuthTag ? cipher.getAuthTag().toString('hex') : ''\<close>.\<close>

datatype tag_result =
    TagAbsent \<comment> \<open>the cipher object has no \<open>getAuthTag\<close>\<close>
  | TagThrows \<comment> \<open>\<open>getAuthTag()\<close> throws\<close>
  | Tag "byte list"

text \<open>Outcome of \<open>if (decipher.setAuthTag) decipher.setAuthTag(authTag)\<close>.\<close>

datatype set_tag_result =
    SetTagAbsent \<comment> \<open>the decipher object has no \<open>setAuthTag\<close>\<close>
  | SetTagThrows \<comment> \<open>\<open>setAuthTag(authTag)\<close> throws\<close>
  | SetTagDone

text \<open>
  \<^item> \<open>random_source\<close>: the bytes \<open>randomBytes\<close> hands out, by position: one outcome of the
    randomness;
  \<^item> \<open>scrypt password salt keylen\<close>: the derived key, \<open>None\<close> when it rejects;
  \<^item> \<open>cipher_run alg key text\<close>: \<open>createCipher(alg, key)\<close>, then
    \<open>update(text, 'utf8', 'hex') + final('hex')\<close>, as bytes; \<open>None\<close> when one of them
    throws;
  \<^item> \<open>cipher_auth_tag alg key text\<close>: what \<open>getAuthTag\<close> gives on that cipher object after
    \<open>final\<close>;
  \<^item> \<open>decipher_set_tag alg key tag\<close>: what \<open>setAuthTag(tag)\<close> does on
    \<open>createDecipher(alg, key)\<close>;
  \<^item> \<open>decipher_run alg key tag data\<close>: \<open>createDecipher(alg, key)\<close>, with \<open>tag\<close> set
    (\<open>Some\<close>) or no tag set (\<open>None\<close>), then
    \<open>update(data, undefined, 'utf8') + final('utf8')\<close>; \<open>None\<close> when one of them throws.
\<close>

record platform =
  random_source :: "nat \<Rightarrow> byte"
  scrypt :: "string \<Rightarrow> byte list \<Rightarrow> nat \<Rightarrow> byte list option"
  cipher_run :: "string \<Rightarrow> byte list \<Rightarrow> string \<Rightarrow> byte list option"
  cipher_auth_tag :: "string \<Rightarrow> byte list \<Rightarrow> string \<Rightarrow> tag_result"
  decipher_set_tag :: "string \<Rightarrow> byte list \<Rightarrow> byte list \<Rightarrow> set_tag_result"
  decipher_run :: "string \<Rightarrow> byte list \<Rightarrow> byte list option \<Rightarrow> byte list \<Rightarrow> string option"

definition randomBytes :: "platform \<Rightarrow> nat \<Rightarrow> world \<Rightarrow> byte list \<times> world" where
  "randomBytes pf n w =
     (map (random_source pf) [drawn w ..< drawn w + n],
      emit (EvRandomBytes n) (w\<lparr>drawn := drawn w + n\<rparr>))"

text \<open>
  \<open>Buffer.from(v, 'base64')\<close>: a string is decoded, \<open>undefined\<close>, \<open>null\<close>, a number, a
  boolean or a plain object is a \<open>TypeError\<close>. (An array would be copied element by
  element; the encrypted columns hold strings or \<open>null\<close>, and the model takes an array
  as an invalid argument too.)
\<close>

fun buffer_from_base64 :: "jsval \<Rightarrow> error + byte list" where
  "buffer_from_base64 (JStr s) = Inr (from_base64 s)"
| "buffer_from_base64 v = Inl (TypeError ''The first argument must be of type string'')"

text \<open>\<open>buf.subarray(start, end)\<close>, both within \<open>0 .. end\<close>: clamped to the buffer.\<close>

definition subarray :: "byte list \<Rightarrow> nat \<Rightarrow> nat \<Rightarrow> byte list" where
  "subarray buf start end' = take (end' - start) (drop start buf)"

subsection \<open>\<open>EncryptionService\<close>\<close>

definition algorithm :: string where
  "algorithm = ''aes-256-gcm''"

definition keyLength :: nat where
  "keyLength = 32"

definition ivLength :: nat where
  "ivLength = 16"

definition tagLength :: nat where
  "tagLength = 16"

definition saltLength :: nat where
  "saltLength = 32"

definition deriveKey ::
  "platform \<Rightarrow> string \<Rightarrow> byte list \<Rightarrow> world \<Rightarrow> (error + byte list) \<times> world" where
  "deriveKey pf masterKey salt w =
     (case scrypt pf masterKey salt keyLength of
        None \<Rightarrow> (Inl LibraryError, emit EvScrypt w)
      | Some key \<Rightarrow> (Inr key, emit EvScrypt w))"

text \<open>
  The body of the \<open>try\<close> of \<open>encrypt\<close>. \<open>env_key\<close> is \<open>process.env.ENCRYPTION_KEY\<close>.
  \<open>cipher.update\<close> throws a \<open>TypeError\<close> on a text that is not a string.
\<close>

definition encrypt_try ::
  "platform \<Rightarrow> string option \<Rightarrow> jsval \<Rightarrow> world \<Rightarrow> (error + encrypted_data) \<times> world" where
  "encrypt_try pf env_key text w =
     (case env_key of
        None \<Rightarrow> (Inl (Error ''ENCRYPTION_KEY debe tener al menos 32 caracteres''), w)
      | Some masterKey \<Rightarrow>
          if masterKey = [] \<or> length masterKey < 32
          then (Inl (Error ''ENCRYPTION_KEY debe tener al menos 32 caracteres''), w)
          else
            (case randomBytes pf saltLength w of (salt, w1) \<Rightarrow>
            (case randomBytes pf ivLength w1 of (iv_bytes, w2) \<Rightarrow>
            (case deriveKey pf masterKey salt w2 of
               (Inl e, w3) \<Rightarrow> (Inl e, w3)
             | (Inr key, w3) \<Rightarrow>
                 (case text of
                    JStr s \<Rightarrow>
                      (case cipher_run pf algorithm key s of
                         None \<Rightarrow> (Inl LibraryError, emit EvCreateCipher w3)
                       | Some ciphertext \<Rightarrow>
                           (case
                              (case cipher_auth_tag pf algorithm key s of
                                 TagAbsent \<Rightarrow> ([], emit EvCreateCipher w3)
                               | Tag t \<Rightarrow> (to_hex t, emit EvGetAuthTag (emit EvCreateCipher w3))
                               | TagThrows \<Rightarrow>
                                   (case randomBytes pf 16
                                           (emit EvGetAuthTag (emit EvCreateCipher w3)) of
                                      (r, w4) \<Rightarrow> (to_hex r, w4)))
                            of (tag_hex, w5) \<Rightarrow>
                              (Inr \<lparr>encrypted =
                                      to_base64 (salt @ iv_bytes @ from_hex tag_hex
                                                 @ from_hex (to_hex ciphertext)),
                                    authTag = tag_hex,
                                    iv = to_hex iv_bytes\<rparr>, w5)))
                  | _ \<Rightarrow>
                      (Inl (TypeError ''The data argument must be of type string''),
                       emit EvCreateCipher w3))))))"

text \<open>\<open>encrypt\<close>: the \<open>catch\<close> logs and throws one fixed error for every failure.\<close>

definition encrypt ::
  "platform \<Rightarrow> string option \<Rightarrow> jsval \<Rightarrow> world \<Rightarrow> (error + encrypted_data) \<times> world" where
  "encrypt pf env_key text w =
     (case encrypt_try pf env_key text w of
        (Inl e, w') \<Rightarrow>
          (Inl (Error ''Error al cifrar los datos''), emit (EvConsoleError ''Error en cifrado:'') w')
      | (Inr r, w') \<Rightarrow> (Inr r, w'))"

text \<open>
  The argument of \<open>decrypt\<close> as a buffer: a string is decoded, of anything else the
  property \<open>encrypted\<close> is (reading a property of \<open>undefined\<close> or \<open>null\<close> throws).
\<close>

fun decrypt_input :: "jsval \<Rightarrow> error + byte list" where
  "decrypt_input (JStr s) = buffer_from_base64 (JStr s)"
| "decrypt_input JUndefined = Inl (TypeError ''Cannot read properties of undefined'')"
| "decrypt_input JNull = Inl (TypeError ''Cannot read properties of null'')"
| "decrypt_input v = buffer_from_base64 (get_prop v ''encrypted'')"

text \<open>
  The body of the \<open>try\<close> of \<open>decrypt\<close>. The message of the first error is
  \<open>ENCRYPTION_KEY no est\'a configurada\<close>, with the code unit \<open>0xE1\<close>. The slice \<open>iv\<close> is
  cut out as in the source and, as there, not used.
\<close>

definition decrypt_try ::
  "platform \<Rightarrow> string option \<Rightarrow> jsval \<Rightarrow> world \<Rightarrow> (error + string) \<times> world" where
  "decrypt_try pf env_key encryptedData w =
     (case env_key of
        None \<Rightarrow> (Inl (Error (''ENCRYPTION_KEY no est'' @ [CHR 0xE1] @ '' configurada'')), w)
      | Some masterKey \<Rightarrow>
          if masterKey = []
          then (Inl (Error (''ENCRYPTION_KEY no est'' @ [CHR 0xE1] @ '' configurada'')), w)
          else
            (case decrypt_input encryptedData of
               Inl e \<Rightarrow> (Inl e, w)
             | Inr combined \<Rightarrow>
                 (let salt = subarray combined 0 saltLength;
                      iv_bytes = subarray combined saltLength (saltLength + ivLength);
                      tag = subarray combined (saltLength + ivLength)
                              (saltLength + ivLength + tagLength);
                      ciphertext = drop (saltLength + ivLength + tagLength) combined
                  in
                  (case deriveKey pf masterKey salt w of
                     (Inl e, w1) \<Rightarrow> (Inl e, w1)
                   | (Inr key, w1) \<Rightarrow>
                       (case
                          (case decipher_set_tag pf algorithm key tag of
                             SetTagAbsent \<Rightarrow> (None, emit EvCreateDecipher w1)
                           | SetTagThrows \<Rightarrow>
                               (None, emit EvSetAuthTag (emit EvCreateDecipher w1))
                           | SetTagDone \<Rightarrow>
                               (Some tag, emit EvSetAuthTag (emit EvCreateDecipher w1)))
                        of (tag_set, w2) \<Rightarrow>
                          (case decipher_run pf algorithm key tag_set ciphertext of
                             None \<Rightarrow> (Inl LibraryError, w2)
                           | Some decrypted \<Rightarrow> (Inr decrypted, w2)))))))"

text \<open>\<open>decrypt\<close>: again one fixed error for every failure.\<close>

definition decrypt ::
  "platform \<Rightarrow> string option \<Rightarrow> jsval \<Rightarrow> world \<Rightarrow> (error + string) \<times> world" where
  "decrypt pf env_key encryptedData w =
     (case decrypt_try pf env_key encryptedData w of
        (Inl e, w') \<Rightarrow>
          (Inl (Error ''Error al descifrar los datos''),
           emit (EvConsoleError ''Error en descifrado:'') w')
      | (Inr s, w') \<Rightarrow> (Inr s, w'))"

text \<open>
  \<open>encryptObject\<close>: the loop reads the fields of \<open>obj\<close> and writes to the copy
  \<open>result\<close>; a failing \<open>encrypt\<close> rejects the whole call.
\<close>

fun encryptObject_loop ::
  "platform \<Rightarrow> string option \<Rightarrow> (string \<times> jsval) list \<Rightarrow> string list
     \<Rightarrow> (string \<times> jsval) list \<Rightarrow> world \<Rightarrow> (error + (string \<times> jsval) list) \<times> world" where
  "encryptObject_loop pf env_key obj [] result w = (Inr result, w)"
| "encryptObject_loop pf env_key obj (field # rest) result w =
     (if truthy (get_prop (JObj obj) field) \<and> is_string (get_prop (JObj obj) field)
      then
        (case encrypt pf env_key (get_prop (JObj obj) field) w of
           (Inl e, w') \<Rightarrow> (Inl e, w')
         | (Inr enc, w') \<Rightarrow>
             encryptObject_loop pf env_key obj rest
               (AList.delete field
                  (AList.update (field @ ''Encrypted'') (JStr (encrypted enc)) result))
               w')
      else encryptObject_loop pf env_key obj rest result w)"

definition encryptObject ::
  "platform \<Rightarrow> string option \<Rightarrow> (string \<times> jsval) list \<Rightarrow> string list \<Rightarrow> world
     \<Rightarrow> (error + (string \<times> jsval) list) \<times> world" where
  "encryptObject pf env_key obj fieldsToEncrypt w =
     encryptObject_loop pf env_key obj fieldsToEncrypt obj w"

text \<open>
  \<open>decryptObject\<close>: a failing \<open>decrypt\<close> is logged and the field is kept as it is.
\<close>

fun decryptObject_loop ::
  "platform \<Rightarrow> string option \<Rightarrow> (string \<times> jsval) list \<Rightarrow> string list
     \<Rightarrow> (string \<times> jsval) list \<Rightarrow> world \<Rightarrow> (string \<times> jsval) list \<times> world" where
  "decryptObject_loop pf env_key obj [] result w = (result, w)"
| "decryptObject_loop pf env_key obj (field # rest) result w =
     (if truthy (get_prop (JObj obj) (field @ ''Encrypted''))
      then
        (case decrypt pf env_key (get_prop (JObj obj) (field @ ''Encrypted'')) w of
           (Inl e, w') \<Rightarrow>
             decryptObject_loop pf env_key obj rest result
               (emit (EvConsoleError (''Error descifrando campo '' @ field @ '':'')) w')
         | (Inr decrypted, w') \<Rightarrow>
             decryptObject_loop pf env_key obj rest
               (AList.delete (field @ ''Encrypted'')
                  (AList.update field (JStr decrypted) result))
               w')
      else decryptObject_loop pf env_key obj rest result w)"

definition decryptObject ::
  "platform \<Rightarrow> string option \<Rightarrow> (string \<times> jsval) list \<Rightarrow> string list \<Rightarrow> world
     \<Rightarrow> (string \<times> jsval) list \<times> world" where
  "decryptObject pf env_key obj fieldsToDecrypt w =
     decryptObject_loop pf env_key obj fieldsToDecrypt obj w"

text \<open>
  \<open>isEncrypted\<close>: the \<open>catch\<close> answers \<open>false\<close> when \<open>Buffer.from\<close> throws.
\<close>

definition isEncrypted :: "jsval \<Rightarrow> bool" where
  "isEncrypted data =
     (case buffer_from_base64 data of
        Inl e \<Rightarrow> False
      | Inr buffer \<Rightarrow> length buffer \<ge> saltLength + ivLength + tagLength + 1)"

subsection \<open>\<open>createEncryptionMiddleware\<close>\<close>

definition sensitiveFields :: "string list" where
  "sensitiveFields =
     [''firstName'', ''lastName'', ''phone'', ''birthDate'', ''nationality'', ''address'',
      ''motivation'']"

text \<open>
  The write loop works on \<open>params.args.data\<close> itself: it reads each field from the
  payload as the earlier iterations left it.
\<close>

fun encrypt_fields ::
  "platform \<Rightarrow> string option \<Rightarrow> string list \<Rightarrow> jsval \<Rightarrow> world \<Rightarrow> (error + jsval) \<times> world" where
  "encrypt_fields pf env_key [] data w = (Inr data, w)"
| "encrypt_fields pf env_key (field # rest) data w =
     (if truthy (get_prop data field)
      then
        (case encrypt pf env_key (get_prop data field) w of
           (Inl e, w') \<Rightarrow> (Inl e, w')
         | (Inr enc, w') \<Rightarrow>
             encrypt_fields pf env_key rest
               (delete_prop (set_prop data (field @ ''Encrypted'') (JStr (encrypted enc))) field)
               w')
      else encrypt_fields pf env_key rest data w)"

text \<open>The read loop over the fields of one item, and over the items.\<close>

fun decrypt_fields ::
  "platform \<Rightarrow> string option \<Rightarrow> string list \<Rightarrow> jsval \<Rightarrow> world \<Rightarrow> jsval \<times> world" where
  "decrypt_fields pf env_key [] item w = (item, w)"
| "decrypt_fields pf env_key (field # rest) item w =
     (if truthy (get_prop item (field @ ''Encrypted''))
      then
        (case decrypt pf env_key (get_prop item (field @ ''Encrypted'')) w of
           (Inl e, w') \<Rightarrow>
             decrypt_fields pf env_key rest item
               (emit (EvConsoleError (''Error descifrando '' @ field @ '':'')) w')
         | (Inr decrypted, w') \<Rightarrow>
             decrypt_fields pf env_key rest
               (delete_prop (set_prop item field (JStr decrypted)) (field @ ''Encrypted''))
               w')
      else decrypt_fields pf env_key rest item w)"

fun decrypt_items ::
  "platform \<Rightarrow> string option \<Rightarrow> jsval list \<Rightarrow> world \<Rightarrow> jsval list \<times> world" where
  "decrypt_items pf env_key [] w = ([], w)"
| "decrypt_items pf env_key (item # items) w =
     (case (if truthy item then decrypt_fields pf env_key sensitiveFields item w
            else (item, w)) of
        (item', w') \<Rightarrow>
          (case decrypt_items pf env_key items w' of
             (items', w'') \<Rightarrow> (item' # items', w'')))"

definition is_write :: "params \<Rightarrow> bool" where
  "is_write p \<longleftrightarrow>
     (action p = ''create'' \<or> action p = ''update'') \<and> model p = Some ''UserProfile''"

definition is_read :: "params \<Rightarrow> bool" where
  "is_read p \<longleftrightarrow>
     (action p = ''findUnique'' \<or> action p = ''findFirst'' \<or> action p = ''findMany'')
     \<and> model p = Some ''UserProfile''"

text \<open>
  The first part of the hook, up to the call of \<open>next\<close>: the params that will be
  passed on, or the error that rejects the call. Reading \<open>params.args.data\<close> throws
  when \<open>params.args\<close> is \<open>undefined\<close> or \<open>null\<close>.
\<close>

definition encrypt_stage ::
  "platform \<Rightarrow> string option \<Rightarrow> params \<Rightarrow> world \<Rightarrow> (error + params) \<times> world" where
  "encrypt_stage pf env_key p w =
     (if is_write p then
        (case args p of
           JUndefined \<Rightarrow> (Inl (TypeError ''Cannot read properties of undefined''), w)
         | JNull \<Rightarrow> (Inl (TypeError ''Cannot read properties of null''), w)
         | a \<Rightarrow>
             if truthy (get_prop a ''data'') then
               (case encrypt_fields pf env_key sensitiveFields (get_prop a ''data'') w of
                  (Inl e, w') \<Rightarrow> (Inl e, w')
                | (Inr data', w') \<Rightarrow> (Inr (p\<lparr>args := set_prop a ''data'' data'\<rparr>), w'))
             else (Inr p, w))
      else (Inr p, w))"

text \<open>
  The second part, after \<open>next\<close> has answered \<open>result\<close>: the items of an array, or the
  single result, are decrypted in place and the result is returned.
\<close>

definition decrypt_stage ::
  "platform \<Rightarrow> string option \<Rightarrow> params \<Rightarrow> jsval \<Rightarrow> world \<Rightarrow> jsval \<times> world" where
  "decrypt_stage pf env_key p result w =
     (if is_read p \<and> truthy result then
        (case result of
           JArr items \<Rightarrow>
             (case decrypt_items pf env_key items w of (items', w') \<Rightarrow> (JArr items', w'))
         | item \<Rightarrow> decrypt_fields pf env_key sensitiveFields item w)
      else (result, w))"

text \<open>
  The hook. \<open>next\<close> is the rest of the chain down to the storage: its answer to the
  params it is given, a result or a rejection. The hook calls it at most once, and the
  call is recorded as \<open>EvNext\<close>.
\<close>

definition middleware ::
  "platform \<Rightarrow> string option \<Rightarrow> params \<Rightarrow> (params \<Rightarrow> error + jsval) \<Rightarrow> world
     \<Rightarrow> (error + jsval) \<times> world" where
  "middleware pf env_key p next w =
     (case encrypt_stage pf env_key p w of
        (Inl e, w1) \<Rightarrow> (Inl e, w1)
      | (Inr p1, w1) \<Rightarrow>
          (case next p1 of
             Inl e \<Rightarrow> (Inl e, emit (EvNext p1) w1)
           | Inr result \<Rightarrow>
               (case decrypt_stage pf env_key p1 result (emit (EvNext p1) w1) of
                  (result', w2) \<Rightarrow> (Inr result', w2))))"

subsection \<open>Notions used to state the properties\<close>

text \<open>The own property \<open>k\<close> of a value, \<open>None\<close> when it has none.\<close>

fun own_prop :: "jsval \<Rightarrow> string \<Rightarrow> jsval option" where
  "own_prop (JObj ps) k = map_of ps k"
| "own_prop v k = None"

text \<open>
  A field that \<open>encryptObject\<close> encrypts: \<open>obj[field] && typeof obj[field] === 'string'\<close>,
  a string that is present and not empty.
\<close>

definition encryptable :: "(string \<times> jsval) list \<Rightarrow> string \<Rightarrow> bool" where
  "encryptable obj field \<longleftrightarrow>
     truthy (get_prop (JObj obj) field) \<and> is_string (get_prop (JObj obj) field)"

text \<open>
  No name of the list is \<open><g>Encrypted\<close> for a name \<open>g\<close> of the list. The list of the
  hook, \<open>sensitiveFields\<close>, is of this kind.
\<close>

definition plain_names :: "string list \<Rightarrow> bool" where
  "plain_names fs \<longleftrightarrow> (\<forall>f \<in> set fs. \<forall>g \<in> set fs. f \<noteq> g @ ''Encrypted'')"

text \<open>
  What \<open>decrypt\<close> answers for a value. The answer does not depend on the state it is
  called in (\<open>fst_decrypt\<close> below), so it is read off a call in the initial state.
\<close>

definition decrypt_result :: "platform \<Rightarrow> string option \<Rightarrow> jsval \<Rightarrow> error + string" where
  "decrypt_result pf env_key v = fst (decrypt pf env_key v \<lparr>drawn = 0, events = []\<rparr>)"

text \<open>
  What the read loop has done about the field \<open>f\<close> of an item, \<open>item'\<close> being the item
  afterwards: where \<open>item[f + 'Encrypted']\<close> is truthy and decrypts, the plaintext is
  under \<open>f\<close> and the encrypted key is gone; where it is truthy and fails to decrypt,
  or is not truthy, both keys are as they were.
\<close>

definition field_read :: "platform \<Rightarrow> string option \<Rightarrow> jsval \<Rightarrow> jsval \<Rightarrow> string \<Rightarrow> bool" where
  "field_read pf env_key item item' f =
     (if truthy (get_prop item (f @ ''Encrypted''))
      then (case decrypt_result pf env_key (get_prop item (f @ ''Encrypted'')) of
              Inr s \<Rightarrow>
                own_prop item' f = Some (JStr s) \<and> own_prop item' (f @ ''Encrypted'') = None
            | Inl e \<Rightarrow>
                own_prop item' f = own_prop item f
                \<and> own_prop item' (f @ ''Encrypted'') = own_prop item (f @ ''Encrypted''))
      else own_prop item' f = own_prop item f
           \<and> own_prop item' (f @ ''Encrypted'') = own_prop item (f @ ''Encrypted''))"

text \<open>
  The whole of what the read loop has done to one item: every sensitive field is read
  as above, every other key is as it was, and an item that is not an object is
  unchanged.
\<close>

fun is_object :: "jsval \<Rightarrow> bool" where
  "is_object (JObj ps) = True"
| "is_object v = False"

fun is_array :: "jsval \<Rightarrow> bool" where
  "is_array (JArr xs) = True"
| "is_array v = False"

definition item_read :: "platform \<Rightarrow> string option \<Rightarrow> jsval \<Rightarrow> jsval \<Rightarrow> bool" where
  "item_read pf env_key item item' \<longleftrightarrow>
     (\<forall>f \<in> set sensitiveFields. field_read pf env_key item item' f)
     \<and> (\<forall>k. (\<forall>f \<in> set sensitiveFields. k \<noteq> f \<and> k \<noteq> f @ ''Encrypted'')
            \<longrightarrow> own_prop item' k = own_prop item k)
     \<and> (is_object item' \<longleftrightarrow> is_object item)
     \<and> (\<not> is_object item \<longrightarrow> item' = item)"

text \<open>
  A call that takes the world from \<open>w\<close> to \<open>w'\<close> only adds events, and those it adds
  satisfy \<open>P\<close>.
\<close>

definition adds :: "(event \<Rightarrow> bool) \<Rightarrow> world \<Rightarrow> world \<Rightarrow> bool" where
  "adds P w w' \<longleftrightarrow> (\<exists>es. events w' = events w @ es \<and> (\<forall>e \<in> set es. P e))"

text \<open>Bit \<open>i\<close> of a buffer flipped, counting eight bits to the byte.\<close>

definition flip_buffer_bit :: "nat \<Rightarrow> byte list \<Rightarrow> byte list" where
  "flip_buffer_bit i buf =
     (if i div 8 < length buf then buf[i div 8 := flip_bit (i mod 8) (buf ! (i div 8))]
      else buf)"

text \<open>The events that a call added to those of the world it started in.\<close>

definition new_events :: "world \<Rightarrow> world \<Rightarrow> event list" where
  "new_events w w' = drop (length (events w)) (events w')"

text \<open>
  What a property asks of the platform is one of the following. For Node.js with the
  algorithm \<open>aes-256-gcm\<close> of the source (and a version that still has \<open>createCipher\<close>)
  they say: \<open>scrypt\<close> gives a key; the cipher runs and \<open>getAuthTag\<close> gives the 16-byte
  tag; \<open>getAuthTag\<close> exists and a tag has 16 bytes; the decipher, given the tag of a
  ciphertext, gives the text back; the decipher refuses to finish without a tag, and
  with a tag or a ciphertext of which one bit is flipped.
\<close>

definition scrypt_returns :: "platform \<Rightarrow> bool" where
  "scrypt_returns pf \<longleftrightarrow> (\<forall>password salt. scrypt pf password salt keyLength \<noteq> None)"

definition cipher_returns :: "platform \<Rightarrow> bool" where
  "cipher_returns pf \<longleftrightarrow>
     (\<forall>key text. cipher_run pf algorithm key text \<noteq> None
        \<and> (\<exists>t. cipher_auth_tag pf algorithm key text = Tag t \<and> length t = tagLength))"

definition tag_sized :: "platform \<Rightarrow> bool" where
  "tag_sized pf \<longleftrightarrow>
     (\<forall>key text. cipher_auth_tag pf algorithm key text \<noteq> TagAbsent
        \<and> (\<forall>t. cipher_auth_tag pf algorithm key text = Tag t \<longrightarrow> length t = tagLength))"


definition tamper_evident :: "platform \<Rightarrow> bool" where
  "tamper_evident pf \<longleftrightarrow>
     (\<forall>key ct. decipher_run pf algorithm key None ct = None)
     \<and> (\<forall>key text ct t i.
          cipher_run pf algorithm key text = Some ct
          \<and> cipher_auth_tag pf algorithm key text = Tag t
          \<longrightarrow> (i < 8 * length t
                 \<longrightarrow> decipher_run pf algorithm key (Some (flip_buffer_bit i t)) ct = None)
              \<and> (i < 8 * length ct
                 \<longrightarrow> decipher_run pf algorithm key (Some t) (flip_buffer_bit i ct) = None))"

text \<open>
  The events of the read path: never a call of \<open>next\<close>, never the log of a failed
  encryption.
\<close>

definition read_event :: "event \<Rightarrow> bool" where
  "read_event e \<longleftrightarrow> \<not> is_next e \<and> e \<noteq> EvConsoleError ''Error en cifrado:''"

subsection \<open>A small platform to run the code on\<close>

text \<open>
  Not a cipher to use: the key is the salt shifted by the length of the password, the
  text is masked with the first byte of the key, and the tag is a checksum of the
  ciphertext. It has the properties above, which is what the instances
  below need, and the service can be run on it.
\<close>

definition key_mask :: "byte list \<Rightarrow> byte" where
  "key_mask key = (case key of [] \<Rightarrow> 0 | k # ks \<Rightarrow> k)"

fun xor_sum :: "byte list \<Rightarrow> byte" where
  "xor_sum [] = 0"
| "xor_sum (b # bs) = b XOR xor_sum bs"

definition ref_cipher :: "byte list \<Rightarrow> string \<Rightarrow> byte list" where
  "ref_cipher key text = map (\<lambda>c. of_nat (of_char c) XOR key_mask key) text"

definition ref_tag :: "byte list \<Rightarrow> byte list \<Rightarrow> byte list" where
  "ref_tag key ct = (xor_sum ct XOR key_mask key) # replicate 15 (key_mask key)"

definition ref_decipher :: "byte list \<Rightarrow> byte list option \<Rightarrow> byte list \<Rightarrow> string option" where
  "ref_decipher key tag ct =
     (case tag of
        None \<Rightarrow> None
      | Some t \<Rightarrow>
          if t = ref_tag key ct
          then Some (map (\<lambda>b. char_of (unat (b XOR key_mask key))) ct)
          else None)"

definition ref_platform :: platform where
  "ref_platform =
     \<lparr>random_source = (\<lambda>i. of_nat (7 * i + 3)),
      scrypt = (\<lambda>password salt n.
                  Some (map (\<lambda>b. b + of_nat (length password))
                          (take n (salt @ replicate n 0)))),
      cipher_run = (\<lambda>alg key text. Some (ref_cipher key text)),
      cipher_auth_tag = (\<lambda>alg key text. Tag (ref_tag key (ref_cipher key text))),
      decipher_set_tag = (\<lambda>alg key tag. if length tag = 16 then SetTagDone else SetTagThrows),
      decipher_run = (\<lambda>alg key tag ct. ref_decipher key tag ct)\<rparr>"

text \<open>The same platform with a cipher that throws, and with a random source that repeats.\<close>

definition failing_cipher_platform :: platform where
  "failing_cipher_platform = ref_platform\<lparr>cipher_run := (\<lambda>alg key text. None)\<rparr>"

definition repeating_platform :: platform where
  "repeating_platform = ref_platform\<lparr>random_source := (\<lambda>i. 0)\<rparr>"

definition ref_key :: string where
  "ref_key = ''0123456789abcdef0123456789abcdef''"

definition world0 :: world where
  "world0 = \<lparr>drawn = 0, events = []\<rparr>"

text \<open>
  Inputs of the examples: a read of two profiles, the first with a \<open>phoneEncrypted\<close>
  that is no blob, the second with the blob of \<open>555-1234\<close>; a \<open>create\<close> whose
  \<open>birthDate\<close> is a number, which \<open>cipher.update\<close> refuses; an \<open>upsert\<close>.
\<close>

definition record_corrupted :: jsval where
  "record_corrupted = JObj [(''id'', JNum 1), (''phoneEncrypted'', JStr ''corrupted'')]"

definition record_valid :: jsval where
  "record_valid =
     JObj [(''id'', JNum 2),
           (''phoneEncrypted'',
            JStr ''AwoRGB8mLTQ7QklQV15lbHN6gYiPlp2kq7K5wMfO1dzj6vH4/wYNFBsiKTA3PkVMPyMjIyMjIyMjIyMjIyMjIxYWFg4SERAX'')]"

definition find_many :: params where
  "find_many = \<lparr>model = Some ''UserProfile'', action = ''findMany'', args = JObj []\<rparr>"

definition create_profile :: params where
  "create_profile =
     \<lparr>model = Some ''UserProfile'', action = ''create'',
      args = JObj [(''data'', JObj [(''firstName'', JStr ''Dana''),
                                   (''birthDate'', JNum 19900101)])]\<rparr>"

definition upsert_profile :: params where
  "upsert_profile =
     \<lparr>model = Some ''UserProfile'', action = ''upsert'',
      args = JObj [(''create'', JObj [(''firstName'', JStr ''Dana'')])]\<rparr>"

subsection \<open>Facts about the encodings\<close>

lemma unat_byte_less: "unat (b :: byte) < 256"
  using unsigned_less [of b, where 'a = nat] by simp

lemma hex_val_digit_all: "\<forall>n \<in> set [0..<16]. hex_val (hex_digit n) = Some n"
  by code_simp

lemma hex_val_digit: "n < 16 \<Longrightarrow> hex_val (hex_digit n) = Some n"
  using hex_val_digit_all by simp

lemma byte_nibbles: "(of_nat (16 * (unat b div 16) + unat b mod 16) :: byte) = b"
  by simp

lemma from_hex_to_hex: "from_hex (to_hex bs) = bs"
proof (induction bs)
  case Nil
  show ?case by simp
next
  case (Cons b bs)
  have hi: "hex_val (hex_digit (unat b div 16)) = Some (unat b div 16)"
    by (rule hex_val_digit) (use unat_byte_less [of b] in simp)
  have lo: "hex_val (hex_digit (unat b mod 16)) = Some (unat b mod 16)"
    by (rule hex_val_digit) simp
  show ?case
    using Cons.IH by (simp add: hi lo byte_nibbles del: of_nat_add of_nat_mult)
qed

lemma b64_val_char: "n < 64 \<Longrightarrow> b64_val (b64_char n) = Some n"
  by (auto simp: b64_val_def b64_char_def Let_def)

lemma b64_char_not_pad: "n < 64 \<Longrightarrow> b64_char n \<noteq> CHR ''=''"
proof
  assume n: "n < 64" and "b64_char n = CHR ''=''"
  then have "b64_val (b64_char n) = b64_val CHR ''=''" by simp
  with n show False by (simp add: b64_val_char) (simp add: b64_val_def)
qed

lemma b64_sextets_char:
  "n < 64 \<Longrightarrow> b64_sextets (b64_char n # cs) = n # b64_sextets cs"
  by (simp add: b64_val_char b64_char_not_pad)

lemma b64_group1:
  "(of_nat ((unat (a::byte) div 4) * 4
      + ((unat a mod 4) * 16 + unat (b::byte) div 16) div 16) :: byte) = a"
proof -
  have "unat b div 16 < 16" using unat_byte_less [of b] by simp
  then have "((unat a mod 4) * 16 + unat b div 16) div 16 = unat a mod 4" by simp
  then show ?thesis by (simp del: of_nat_add of_nat_mult)
qed

lemma b64_group2:
  "(of_nat ((((unat (a::byte) mod 4) * 16 + unat (b::byte) div 16) mod 16) * 16
      + ((unat b mod 16) * 4 + unat (c::byte) div 64) div 4) :: byte) = b"
proof -
  have c: "unat c div 64 < 4" using unat_byte_less [of c] by simp
  have b: "unat b div 16 < 16" using unat_byte_less [of b] by simp
  have "((unat a mod 4) * 16 + unat b div 16) mod 16 = unat b div 16" using b by simp
  moreover have "((unat b mod 16) * 4 + unat c div 64) div 4 = unat b mod 16" using c by simp
  ultimately show ?thesis by (simp del: of_nat_add of_nat_mult)
qed

lemma b64_group3:
  "(of_nat ((((unat (b::byte) mod 16) * 4 + unat (c::byte) div 64) mod 4) * 64
      + unat c mod 64) :: byte) = c"
proof -
  have c: "unat c div 64 < 4" using unat_byte_less [of c] by simp
  have "((unat b mod 16) * 4 + unat c div 64) mod 4 = unat c div 64" using c by simp
  then show ?thesis by (simp del: of_nat_add of_nat_mult)
qed

lemma b64_bounds:
  "unat (a::byte) div 4 < 64"
  "(unat (a::byte) mod 4) * 16 + unat (b::byte) div 16 < 64"
  "(unat (b::byte) mod 16) * 4 + unat (c::byte) div 64 < 64"
  "unat (c::byte) mod 64 < 64"
  "(unat (a::byte) mod 4) * 16 < 64"
  "(unat (b::byte) mod 16) * 4 < 64"
  using unat_byte_less [of a] unat_byte_less [of b] unat_byte_less [of c] by simp_all

lemma b64_bytes_sextets_to_base64: "b64_bytes (b64_sextets (to_base64 bs)) = bs"
proof (induction bs rule: to_base64.induct)
  case (1 a b c rest)
  have s1: "b64_sextets (b64_char (unat a div 4) # cs) = unat a div 4 # b64_sextets cs"
    for cs by (rule b64_sextets_char) (rule b64_bounds)
  have s2: "b64_sextets (b64_char ((unat a mod 4) * 16 + unat b div 16) # cs)
      = ((unat a mod 4) * 16 + unat b div 16) # b64_sextets cs"
    for cs by (rule b64_sextets_char) (rule b64_bounds)
  have s3: "b64_sextets (b64_char ((unat b mod 16) * 4 + unat c div 64) # cs)
      = ((unat b mod 16) * 4 + unat c div 64) # b64_sextets cs"
    for cs by (rule b64_sextets_char) (rule b64_bounds)
  have s4: "b64_sextets (b64_char (unat c mod 64) # cs) = unat c mod 64 # b64_sextets cs"
    for cs by (rule b64_sextets_char) (rule b64_bounds)
  show ?case
    by (simp only: to_base64.simps s1 s2 s3 s4 b64_bytes.simps
          b64_group1 b64_group2 b64_group3 "1.IH")
next
  case (2 a b)
  have s1: "b64_sextets (b64_char (unat a div 4) # cs) = unat a div 4 # b64_sextets cs"
    for cs by (rule b64_sextets_char) (rule b64_bounds)
  have s2: "b64_sextets (b64_char ((unat a mod 4) * 16 + unat b div 16) # cs)
      = ((unat a mod 4) * 16 + unat b div 16) # b64_sextets cs"
    for cs by (rule b64_sextets_char) (rule b64_bounds)
  have s3: "b64_sextets (b64_char ((unat b mod 16) * 4) # cs)
      = ((unat b mod 16) * 4) # b64_sextets cs"
    for cs by (rule b64_sextets_char) (rule b64_bounds)
  have pad: "b64_sextets [CHR ''=''] = []" by simp
  have g2: "(of_nat ((((unat a mod 4) * 16 + unat b div 16) mod 16) * 16
      + ((unat b mod 16) * 4) div 4) :: byte) = b"
    using b64_group2 [of a b 0] by simp
  show ?case
    by (simp only: to_base64.simps s1 s2 s3 pad b64_bytes.simps b64_group1 g2)
next
  case (3 a)
  have s1: "b64_sextets (b64_char (unat a div 4) # cs) = unat a div 4 # b64_sextets cs"
    for cs by (rule b64_sextets_char) (rule b64_bounds)
  have s2: "b64_sextets (b64_char ((unat a mod 4) * 16) # cs)
      = ((unat a mod 4) * 16) # b64_sextets cs"
    for cs by (rule b64_sextets_char) (rule b64_bounds)
  have pad: "b64_sextets [CHR ''='', CHR ''=''] = []" by simp
  have g1: "(of_nat ((unat a div 4) * 4 + ((unat a mod 4) * 16) div 16) :: byte) = a"
    using b64_group1 [of a 0] by simp
  show ?case
    by (simp only: to_base64.simps s1 s2 pad b64_bytes.simps g1)
next
  case 4
  show ?case by simp
qed

lemma from_base64_to_base64: "from_base64 (to_base64 bs) = bs"
  by (simp add: from_base64_def b64_bytes_sextets_to_base64)

lemma to_base64_inject: "to_base64 xs = to_base64 ys \<Longrightarrow> xs = ys"
  using from_base64_to_base64 by metis

subsection \<open>The core of \<open>encrypt\<close> and \<open>decrypt\<close>\<close>

lemma encrypt_Inr_iff:
  "encrypt pf env_key text w = (Inr r, w') \<longleftrightarrow> encrypt_try pf env_key text w = (Inr r, w')"
  by (auto simp: encrypt_def split: prod.splits sum.splits)

lemma encrypt_try_InrD:
  assumes "encrypt_try pf env_key text w = (Inr r, w')"
  shows "\<exists>masterKey s key ct.
           env_key = Some masterKey \<and> 32 \<le> length masterKey \<and> text = JStr s
           \<and> scrypt pf masterKey (map (random_source pf) [drawn w ..< drawn w + 32]) keyLength = Some key
           \<and> cipher_run pf algorithm key s = Some ct
           \<and> encrypted r = to_base64 (map (random_source pf) [drawn w ..< drawn w + 32]
                 @ map (random_source pf) [drawn w + 32 ..< drawn w + 48]
                 @ from_hex (authTag r) @ ct)
           \<and> iv r = to_hex (map (random_source pf) [drawn w + 32 ..< drawn w + 48])
           \<and> (case cipher_auth_tag pf algorithm key s of
                 TagAbsent \<Rightarrow> authTag r = []
               | TagThrows \<Rightarrow> authTag r = to_hex (map (random_source pf) [drawn w + 48 ..< drawn w + 64])
               | Tag t \<Rightarrow> authTag r = to_hex t)"
  using assms
  by (auto simp: encrypt_try_def randomBytes_def deriveKey_def emit_def saltLength_def ivLength_def
        from_hex_to_hex add.commute
      split: option.splits if_splits prod.splits sum.splits jsval.splits tag_result.splits)

lemma encrypt_Tag:
  assumes "32 \<le> length masterKey"
    and "scrypt pf masterKey (map (random_source pf) [drawn w ..< drawn w + 32]) keyLength = Some key"
    and "cipher_run pf algorithm key s = Some ct"
    and "cipher_auth_tag pf algorithm key s = Tag t"
  shows "fst (encrypt pf (Some masterKey) (JStr s) w) =
           Inr \<lparr>encrypted = to_base64 (map (random_source pf) [drawn w ..< drawn w + 32]
                   @ map (random_source pf) [drawn w + 32 ..< drawn w + 48] @ t @ ct),
                authTag = to_hex t,
                iv = to_hex (map (random_source pf) [drawn w + 32 ..< drawn w + 48])\<rparr>"
  using assms
  by (auto simp: encrypt_def encrypt_try_def randomBytes_def deriveKey_def emit_def saltLength_def
        ivLength_def from_hex_to_hex add.commute)

lemma decrypt_layout:
  assumes "masterKey \<noteq> []" and "length salt = 32" and "length iv0 = 16" and "length t = 16"
  shows "fst (decrypt pf (Some masterKey) (JStr (to_base64 (salt @ iv0 @ t @ ct))) w) =
     (case scrypt pf masterKey salt keyLength of
        None \<Rightarrow> Inl (Error ''Error al descifrar los datos'')
      | Some key \<Rightarrow>
          (case decipher_run pf algorithm key
                  (if decipher_set_tag pf algorithm key t = SetTagDone then Some t else None) ct of
             None \<Rightarrow> Inl (Error ''Error al descifrar los datos'')
           | Some text \<Rightarrow> Inr text))"
  using assms
  by (auto simp: decrypt_def decrypt_try_def deriveKey_def emit_def saltLength_def
        ivLength_def tagLength_def subarray_def from_base64_to_base64
      split: option.splits set_tag_result.splits)


subsection \<open>The small platform has the properties asked of a platform\<close>



lemma length_ref_tag: "length (ref_tag key ct) = 16"
  by (simp add: ref_tag_def)


lemma ref_cipher_returns: "cipher_returns ref_platform"
  by (simp add: cipher_returns_def ref_platform_def length_ref_tag tagLength_def)

lemma ref_tag_sized: "tag_sized ref_platform"
  by (simp add: tag_sized_def ref_platform_def length_ref_tag tagLength_def)


lemma ref_encrypt_Dana:
  "encrypt ref_platform (Some ref_key) (JStr ''Dana'') world0 =
     (Inr \<lparr>encrypted =
         ''AwoRGB8mLTQ7QklQV15lbHN6gYiPlp2kq7K5wMfO1dzj6vH4/wYNFBsiKTA3PkVMCSMjIyMjIyMjIyMjIyMjI2dCTUI='',
         authTag = ''09232323232323232323232323232323'',
         iv = ''e3eaf1f8ff060d141b222930373e454c''\<rparr>,
      \<lparr>drawn = 48,
       events = [EvRandomBytes 32, EvRandomBytes 16, EvScrypt, EvCreateCipher, EvGetAuthTag]\<rparr>)"
  by code_simp

subsection \<open>Random bytes by position, and flipped bits\<close>

lemma map_upt_cong:
  assumes "\<forall>i<n. f (a + i) = g (b + i)"
  shows "map f [a ..< a + n] = map g [b ..< b + n]"
  using assms by (auto simp: list_eq_iff_nth_eq)

lemma map_upt_offset_cong:
  assumes "\<forall>i<m. f (a + i) = g (b + i)" and "k + n \<le> m"
  shows "map f [a + k ..< a + (k + n)] = map g [b + k ..< b + (k + n)]"
proof -
  have "\<forall>i<n. f ((a + k) + i) = g ((b + k) + i)"
    using assms by (auto simp: add.assoc)
  from map_upt_cong [OF this] show ?thesis by (simp add: add.assoc)
qed

lemma map_upt_neq:
  assumes "i < n" and "f (a + i) \<noteq> g (b + i)"
  shows "map f [a ..< a + n] \<noteq> map g [b ..< b + n]"
proof
  assume "map f [a ..< a + n] = map g [b ..< b + n]"
  then have "map f [a ..< a + n] ! i = map g [b ..< b + n] ! i" by simp
  with assms show False by simp
qed

lemma length_flip_buffer_bit [simp]: "length (flip_buffer_bit i buf) = length buf"
  by (simp add: flip_buffer_bit_def)

lemma flip_buffer_bit_append:
  "flip_buffer_bit i (xs @ ys) =
     (if i < 8 * length xs then flip_buffer_bit i xs @ ys
      else xs @ flip_buffer_bit (i - 8 * length xs) ys)"
proof (cases "i < 8 * length xs")
  case True
  then have "i div 8 < length xs" by auto
  then show ?thesis
    using True by (simp add: flip_buffer_bit_def list_update_append nth_append)
next
  case False
  then obtain k where k: "i = 8 * length xs + k"
    using le_Suc_ex [of "8 * length xs" i] by auto
  have d: "i div 8 = length xs + k div 8" and m: "i mod 8 = k mod 8"
    by (simp_all add: k)
  have "flip_buffer_bit i (xs @ ys) = xs @ flip_buffer_bit k ys"
    by (simp add: flip_buffer_bit_def d m list_update_append nth_append)
  then show ?thesis using False by (simp add: k)
qed

lemma flip_bit_byte_neq: "n < 8 \<Longrightarrow> flip_bit n (b :: byte) \<noteq> b"
proof
  assume n: "n < 8" and "flip_bit n b = b"
  then have "bit (flip_bit n b) n = bit b n" by simp
  with n show False by (simp add: bit_flip_bit_iff)
qed

lemma flip_buffer_bit_neq: "i < 8 * length buf \<Longrightarrow> flip_buffer_bit i buf \<noteq> buf"
proof
  assume i: "i < 8 * length buf" and eq: "flip_buffer_bit i buf = buf"
  from i have j: "i div 8 < length buf" by auto
  from eq have "flip_buffer_bit i buf ! (i div 8) = buf ! (i div 8)" by simp
  with j have "flip_bit (i mod 8) (buf ! (i div 8)) = buf ! (i div 8)"
    by (simp add: flip_buffer_bit_def)
  then show False using flip_bit_byte_neq [of "i mod 8"] by simp
qed

lemma byte_xor_cancel: "a XOR k = b XOR k \<longleftrightarrow> a = (b :: byte)"
proof
  assume "a XOR k = b XOR k"
  then have "(a XOR k) XOR k = (b XOR k) XOR k" by simp
  then show "a = b" by (simp add: xor.assoc)
qed simp

lemma flip_buffer_bit_append_ge:
  "8 * length xs \<le> i \<Longrightarrow>
     flip_buffer_bit i (xs @ ys) = xs @ flip_buffer_bit (i - 8 * length xs) ys"
  by (simp add: flip_buffer_bit_append)

lemma flip_buffer_bit_append_less:
  "i < 8 * length xs \<Longrightarrow> flip_buffer_bit i (xs @ ys) = flip_buffer_bit i xs @ ys"
  by (simp add: flip_buffer_bit_append)

lemma xor_sum_update:
  "j < length bs \<Longrightarrow> xor_sum (bs[j := x]) = xor_sum bs XOR (bs ! j) XOR x"
proof (induction bs arbitrary: j)
  case Nil
  then show ?case by simp
next
  case (Cons b bs)
  show ?case
  proof (cases j)
    case 0
    then show ?thesis by (simp add: xor.assoc xor.left_commute xor.commute)
  next
    case (Suc k)
    with Cons show ?thesis by (simp add: xor.assoc)
  qed
qed

lemma xor_sum_flip:
  assumes "i < 8 * length bs"
  shows "xor_sum (flip_buffer_bit i bs) \<noteq> xor_sum bs"
proof
  assume eq: "xor_sum (flip_buffer_bit i bs) = xor_sum bs"
  from assms have j: "i div 8 < length bs" by auto
  let ?b = "bs ! (i div 8)"
  from j have "xor_sum (flip_buffer_bit i bs) = xor_sum bs XOR ?b XOR flip_bit (i mod 8) ?b"
    by (simp add: flip_buffer_bit_def xor_sum_update)
  with eq have "(xor_sum bs XOR ?b) XOR flip_bit (i mod 8) ?b = (xor_sum bs XOR ?b) XOR ?b"
    by (simp add: xor.assoc)
  then have "flip_bit (i mod 8) ?b XOR (xor_sum bs XOR ?b) = ?b XOR (xor_sum bs XOR ?b)"
    by (simp only: xor.commute)
  then have "flip_bit (i mod 8) ?b = ?b" by (simp only: byte_xor_cancel)
  then show False using flip_bit_byte_neq [of "i mod 8"] by simp
qed

lemma ref_tamper_evident: "tamper_evident ref_platform"
proof -
  have tag: "ref_decipher key (Some (flip_buffer_bit i (ref_tag key ct))) ct = None"
    if "i < 8 * length (ref_tag key ct)" for key ct i
    using flip_buffer_bit_neq [OF that] by (simp add: ref_decipher_def)
  have ct: "ref_decipher key (Some (ref_tag key ct)) (flip_buffer_bit i ct) = None"
    if "i < 8 * length ct" for key ct i
    using xor_sum_flip [OF that] by (simp add: ref_decipher_def ref_tag_def byte_xor_cancel)
  show ?thesis
    using tag ct by (auto simp: tamper_evident_def ref_platform_def ref_decipher_def)
qed

lemma ref_encrypt_Dana_again:
  "encrypt ref_platform (Some ref_key) (JStr ''Dana'')
     \<lparr>drawn = 48,
      events = [EvRandomBytes 32, EvRandomBytes 16, EvScrypt, EvCreateCipher, EvGetAuthTag]\<rparr> =
     (Inr \<lparr>encrypted =
         ''U1phaG92fYSLkpmgp661vMPK0djf5u30+wIJEBceJSwzOkFIT1ZdZGtyeYCHjpWcWXNzc3Nzc3Nzc3Nzc3NzczcSHRI='',
         authTag = ''59737373737373737373737373737373'',
         iv = ''333a41484f565d646b727980878e959c''\<rparr>,
      \<lparr>drawn = 96,
       events = [EvRandomBytes 32, EvRandomBytes 16, EvScrypt, EvCreateCipher, EvGetAuthTag,
                 EvRandomBytes 32, EvRandomBytes 16, EvScrypt, EvCreateCipher, EvGetAuthTag]\<rparr>)"
  by code_simp

lemma length_to_base64: "length (to_base64 bs) mod 4 = 0"
  by (induction bs rule: to_base64.induct) simp_all

lemma length_encrypted:
  assumes "encrypt pf env_key txt w = (Inr r, w')"
  shows "length (encrypted r) mod 4 = 0"
proof -
  from assms have "encrypt_try pf env_key txt w = (Inr r, w')"
    by (simp add: encrypt_Inr_iff)
  from encrypt_try_InrD [OF this] obtain bs where "encrypted r = to_base64 bs"
    by blast
  then show ?thesis by (simp add: length_to_base64)
qed

lemma encrypt_blob_not_87:
  assumes "encrypt pf env_key txt w = (Inr r, w')"
  shows "encrypted r \<noteq> replicate 87 (CHR ''A'')"
  using length_encrypted [OF assms] by auto

subsection \<open>\<open>encryptObject\<close>: the loop\<close>

lemma encrypt_returns:
  assumes kdf: "scrypt_returns pf" and ciph: "cipher_returns pf" and len: "32 \<le> length masterKey"
  shows "\<exists>r w'. encrypt pf (Some masterKey) (JStr s) w = (Inr r, w')"
proof -
  from kdf obtain key where
    key: "scrypt pf masterKey (map (random_source pf) [drawn w ..< drawn w + 32]) keyLength = Some key"
    by (auto simp: scrypt_returns_def)
  from ciph obtain ct t where "cipher_run pf algorithm key s = Some ct"
    and "cipher_auth_tag pf algorithm key s = Tag t"
    by (fastforce simp: cipher_returns_def)
  from encrypt_Tag [OF len key this] show ?thesis
    by (cases "encrypt pf (Some masterKey) (JStr s) w") auto
qed

lemma encryptable_JStr:
  "encryptable obj f \<Longrightarrow> \<exists>s. get_prop (JObj obj) f = JStr s"
  by (cases "get_prop (JObj obj) f") (auto simp: encryptable_def)

lemma plain_names_Cons: "plain_names (g # fs) \<Longrightarrow> plain_names fs"
  by (simp add: plain_names_def)

lemma encryptObject_loop_Cons:
  "encryptObject_loop pf env_key obj (g # fs) result w =
     (if encryptable obj g
      then (case encrypt pf env_key (get_prop (JObj obj) g) w of
              (Inl e, w') \<Rightarrow> (Inl e, w')
            | (Inr enc, w') \<Rightarrow>
                encryptObject_loop pf env_key obj fs
                  (AList.delete g
                     (AList.update (g @ ''Encrypted'') (JStr (encrypted enc)) result))
                  w')
      else encryptObject_loop pf env_key obj fs result w)"
  by (simp add: encryptable_def)

lemma encryptObject_loop_ConsD:
  assumes "encryptObject_loop pf env_key obj (g # fs) result w = (Inr out, w')"
  shows "if encryptable obj g
         then (\<exists>enc w1. encrypt pf env_key (get_prop (JObj obj) g) w = (Inr enc, w1)
                 \<and> encryptObject_loop pf env_key obj fs
                      (AList.delete g
                         (AList.update (g @ ''Encrypted'') (JStr (encrypted enc)) result))
                      w1 = (Inr out, w'))
         else encryptObject_loop pf env_key obj fs result w = (Inr out, w')"
proof (cases "encryptable obj g")
  case True
  obtain x w1 where e: "encrypt pf env_key (get_prop (JObj obj) g) w = (x, w1)"
    by (cases "encrypt pf env_key (get_prop (JObj obj) g) w")
  show ?thesis
  proof (cases x)
    case (Inl err)
    with assms True e show ?thesis by (simp add: encryptObject_loop_Cons del: encryptObject_loop.simps get_prop.simps)
  next
    case (Inr enc)
    with assms True e show ?thesis by (simp add: encryptObject_loop_Cons del: encryptObject_loop.simps get_prop.simps)
  qed
next
  case False
  with assms show ?thesis by (simp add: encryptObject_loop_Cons del: encryptObject_loop.simps get_prop.simps)
qed

lemma encryptObject_loop_returns:
  assumes "scrypt_returns pf" and "cipher_returns pf" and "32 \<le> length masterKey"
  shows "\<exists>out w'. encryptObject_loop pf (Some masterKey) obj fs result w = (Inr out, w')"
proof (induction fs arbitrary: result w)
  case Nil
  show ?case by simp
next
  case (Cons g fs)
  show ?case
  proof (cases "encryptable obj g")
    case True
    then obtain s where s: "get_prop (JObj obj) g = JStr s"
      using encryptable_JStr by blast
    from encrypt_returns [OF assms, of s w] obtain r w1 where
      "encrypt pf (Some masterKey) (JStr s) w = (Inr r, w1)" by blast
    with True s Cons.IH show ?thesis
      by (simp add: encryptObject_loop_Cons del: encryptObject_loop.simps get_prop.simps)
  next
    case False
    with Cons.IH show ?thesis
      by (simp add: encryptObject_loop_Cons del: encryptObject_loop.simps get_prop.simps)
  qed
qed

lemma encryptObject_loop_skip:
  assumes "\<forall>f \<in> set fs. \<not> encryptable obj f"
  shows "encryptObject_loop pf env_key obj fs result w = (Inr result, w)"
  using assms
  by (induction fs arbitrary: result w) (simp_all add: encryptObject_loop_Cons del: encryptObject_loop.simps(2) get_prop.simps)

lemma encryptObject_loop_frame:
  assumes "encryptObject_loop pf env_key obj fs result w = (Inr out, w')"
    and "\<forall>f \<in> set fs. encryptable obj f \<longrightarrow> k \<noteq> f \<and> k \<noteq> f @ ''Encrypted''"
  shows "map_of out k = map_of result k"
  using assms
proof (induction fs arbitrary: result w)
  case Nil
  then show ?case by simp
next
  case (Cons g fs)
  show ?case
  proof (cases "encryptable obj g")
    case True
    with encryptObject_loop_ConsD [OF Cons.prems(1)] obtain enc :: encrypted_data and w1 where
      rest: "encryptObject_loop pf env_key obj fs
               (AList.delete g (AList.update (g @ ''Encrypted'') (JStr (encrypted enc)) result)) w1
             = (Inr out, w')"
      by auto
    from Cons.prems(2) True have k: "k \<noteq> g" "k \<noteq> g @ ''Encrypted''" by auto
    from Cons.prems(2) have "\<forall>f \<in> set fs. encryptable obj f \<longrightarrow> k \<noteq> f \<and> k \<noteq> f @ ''Encrypted''"
      by simp
    from Cons.IH [OF rest this] k show ?thesis
      by (simp add: delete_conv' update_conv')
  next
    case False
    with encryptObject_loop_ConsD [OF Cons.prems(1)]
    have rest: "encryptObject_loop pf env_key obj fs result w = (Inr out, w')"
      by simp
    from Cons.prems(2) have "\<forall>f \<in> set fs. encryptable obj f \<longrightarrow> k \<noteq> f \<and> k \<noteq> f @ ''Encrypted''"
      by simp
    from Cons.IH [OF rest this] show ?thesis .
  qed
qed

lemma encryptObject_loop_field:
  assumes "encryptObject_loop pf env_key obj fs result w = (Inr out, w')"
    and "plain_names fs" and "f \<in> set fs" and "encryptable obj f"
  shows "map_of out f = None
         \<and> (\<exists>w0 r w1. encrypt pf env_key (get_prop (JObj obj) f) w0 = (Inr r, w1)
               \<and> map_of out (f @ ''Encrypted'') = Some (JStr (encrypted r)))"
  using assms
proof (induction fs arbitrary: result w)
  case Nil
  then show ?case by simp
next
  case (Cons g fs)
  from Cons.prems(2) have pn: "plain_names fs" by (rule plain_names_Cons)
  show ?case
  proof (cases "f \<in> set fs")
    case True
    from encryptObject_loop_ConsD [OF Cons.prems(1)] obtain result1 w1 where
      "encryptObject_loop pf env_key obj fs result1 w1 = (Inr out, w')"
      by (cases "encryptable obj g") auto
    from Cons.IH [OF this pn True Cons.prems(4)] show ?thesis .
  next
    case False
    with Cons.prems(3) have fg: "f = g" by simp
    with encryptObject_loop_ConsD [OF Cons.prems(1)] Cons.prems(4) obtain enc :: encrypted_data and w1 where
      enc: "encrypt pf env_key (get_prop (JObj obj) g) w = (Inr enc, w1)"
      and rest: "encryptObject_loop pf env_key obj fs
               (AList.delete g (AList.update (g @ ''Encrypted'') (JStr (encrypted enc)) result)) w1
             = (Inr out, w')"
      by auto
    have a: "\<forall>h \<in> set fs. encryptable obj h \<longrightarrow> g \<noteq> h \<and> g \<noteq> h @ ''Encrypted''"
      using False fg Cons.prems(2) by (auto simp: plain_names_def)
    have b: "\<forall>h \<in> set fs. encryptable obj h
               \<longrightarrow> g @ ''Encrypted'' \<noteq> h \<and> g @ ''Encrypted'' \<noteq> h @ ''Encrypted''"
      using False fg Cons.prems(2) by (auto simp: plain_names_def)
    have "map_of out g = None"
      using encryptObject_loop_frame [OF rest a] by (simp add: delete_conv')
    moreover have "map_of out (g @ ''Encrypted'') = Some (JStr (encrypted enc))"
      using encryptObject_loop_frame [OF rest b] by (simp add: delete_conv' update_conv')
    ultimately show ?thesis using enc fg by blast
  qed
qed

subsection \<open>The read loop of the hook\<close>

lemma fst_decrypt_try_indep:
  "fst (decrypt_try pf env_key v w) = fst (decrypt_try pf env_key v w0)"
  by (auto simp: decrypt_try_def deriveKey_def Let_def
      split: option.splits sum.splits prod.splits set_tag_result.splits)

lemma fst_decrypt: "fst (decrypt pf env_key v w) = decrypt_result pf env_key v"
proof -
  have "fst (decrypt pf env_key v w) = fst (decrypt pf env_key v w0)" for w0
    using fst_decrypt_try_indep [of pf env_key v w w0]
    by (cases "decrypt_try pf env_key v w"; cases "decrypt_try pf env_key v w0")
       (auto simp: decrypt_def split: sum.splits)
  then show ?thesis by (simp add: decrypt_result_def)
qed

lemma get_prop_own:
  "get_prop v k = (case own_prop v k of None \<Rightarrow> JUndefined | Some x \<Rightarrow> x)"
  by (cases v) simp_all

lemma own_prop_set:
  "is_object v \<Longrightarrow> own_prop (set_prop v k x) k' = (if k' = k then Some x else own_prop v k')"
  by (cases v) (simp_all add: update_conv')

lemma own_prop_delete:
  "own_prop (delete_prop v k) k' = (if k' = k then None else own_prop v k')"
  by (cases v) (simp_all add: delete_conv')

lemma is_object_set [simp]: "is_object (set_prop v k x) = is_object v"
  by (cases v) simp_all

lemma is_object_delete [simp]: "is_object (delete_prop v k) = is_object v"
  by (cases v) simp_all

lemma truthy_get_prop_object: "truthy (get_prop v k) \<Longrightarrow> is_object v"
  by (cases v) simp_all

lemma decrypt_fields_Cons:
  "\<exists>w1. decrypt_fields pf env_key (g # fs) item w =
     decrypt_fields pf env_key fs
       (if truthy (get_prop item (g @ ''Encrypted''))
        then (case decrypt_result pf env_key (get_prop item (g @ ''Encrypted'')) of
                Inl e \<Rightarrow> item
              | Inr s \<Rightarrow> delete_prop (set_prop item g (JStr s)) (g @ ''Encrypted''))
        else item) w1"
proof (cases "truthy (get_prop item (g @ ''Encrypted''))")
  case True
  obtain x w1 where d: "decrypt pf env_key (get_prop item (g @ ''Encrypted'')) w = (x, w1)"
    by (cases "decrypt pf env_key (get_prop item (g @ ''Encrypted'')) w")
  then have r: "decrypt_result pf env_key (get_prop item (g @ ''Encrypted'')) = x"
    using fst_decrypt [of pf env_key "get_prop item (g @ ''Encrypted'')" w] by simp
  show ?thesis
    using True d r by (cases x) (auto simp del: get_prop.simps)
next
  case False
  then show ?thesis by (auto simp del: get_prop.simps)
qed

lemma decrypt_fields_frame:
  assumes "decrypt_fields pf env_key fs item w = (item', w')"
    and "\<forall>f \<in> set fs. k \<noteq> f \<and> k \<noteq> f @ ''Encrypted''"
  shows "own_prop item' k = own_prop item k"
  using assms
proof (induction fs arbitrary: item w)
  case Nil
  then show ?case by simp
next
  case (Cons g fs)
  let ?item1 = "if truthy (get_prop item (g @ ''Encrypted''))
        then (case decrypt_result pf env_key (get_prop item (g @ ''Encrypted'')) of
                Inl e \<Rightarrow> item
              | Inr s \<Rightarrow> delete_prop (set_prop item g (JStr s)) (g @ ''Encrypted''))
        else item"
  from decrypt_fields_Cons [of pf env_key g fs item w] Cons.prems(1) obtain w1 where
    rest: "decrypt_fields pf env_key fs ?item1 w1 = (item', w')" by auto
  from Cons.prems(2) have k: "k \<noteq> g" "k \<noteq> g @ ''Encrypted''"
    and ks: "\<forall>f \<in> set fs. k \<noteq> f \<and> k \<noteq> f @ ''Encrypted''" by auto
  have "own_prop ?item1 k = own_prop item k"
    using k by (auto simp: own_prop_delete own_prop_set truthy_get_prop_object split: sum.splits)
  with Cons.IH [OF rest ks] show ?case by simp
qed

lemma decrypt_fields_is_object:
  assumes "decrypt_fields pf env_key fs item w = (item', w')"
  shows "is_object item' = is_object item"
  using assms
proof (induction fs arbitrary: item w)
  case Nil
  then show ?case by simp
next
  case (Cons g fs)
  let ?item1 = "if truthy (get_prop item (g @ ''Encrypted''))
        then (case decrypt_result pf env_key (get_prop item (g @ ''Encrypted'')) of
                Inl e \<Rightarrow> item
              | Inr s \<Rightarrow> delete_prop (set_prop item g (JStr s)) (g @ ''Encrypted''))
        else item"
  from decrypt_fields_Cons [of pf env_key g fs item w] Cons.prems(1) obtain w1 where
    rest: "decrypt_fields pf env_key fs ?item1 w1 = (item', w')" by auto
  have "is_object ?item1 = is_object item" by (auto split: sum.splits)
  with Cons.IH [OF rest] show ?case by simp
qed

lemma decrypt_fields_not_object:
  assumes "\<not> is_object item"
  shows "\<exists>w'. decrypt_fields pf env_key fs item w = (item, w')"
  using assms
  by (induction fs arbitrary: w) (cases item; simp)+

lemma field_read_step:
  assumes "g \<noteq> g @ ''Encrypted''"
  shows "field_read pf env_key item
     (if truthy (get_prop item (g @ ''Encrypted''))
        then (case decrypt_result pf env_key (get_prop item (g @ ''Encrypted'')) of
                Inl e \<Rightarrow> item
              | Inr s \<Rightarrow> delete_prop (set_prop item g (JStr s)) (g @ ''Encrypted''))
        else item) g"
  by (auto simp: field_read_def own_prop_delete own_prop_set truthy_get_prop_object
      simp del: get_prop.simps split: sum.splits)

lemma field_read_cong:
  assumes "field_read pf env_key item1 item' f"
    and "own_prop item1 f = own_prop item f"
    and "own_prop item1 (f @ ''Encrypted'') = own_prop item (f @ ''Encrypted'')"
  shows "field_read pf env_key item item' f"
proof -
  from assms(3) have g: "get_prop item1 (f @ ''Encrypted'') = get_prop item (f @ ''Encrypted'')"
    by (simp add: get_prop_own del: get_prop.simps)
  from assms(1) show ?thesis
    unfolding field_read_def g assms(2) assms(3) .
qed

lemma field_read_frame:
  assumes "field_read pf env_key item item1 f"
    and "own_prop item' f = own_prop item1 f"
    and "own_prop item' (f @ ''Encrypted'') = own_prop item1 (f @ ''Encrypted'')"
  shows "field_read pf env_key item item' f"
  using assms by (simp add: field_read_def del: get_prop.simps split: sum.splits)

lemma field_read_twice:
  assumes "field_read pf env_key item item1 g" and "field_read pf env_key item1 item' g"
  shows "field_read pf env_key item item' g"
proof (cases "truthy (get_prop item (g @ ''Encrypted''))
    \<and> (\<exists>s. decrypt_result pf env_key (get_prop item (g @ ''Encrypted'')) = Inr s)")
  case True
  then obtain s where t: "truthy (get_prop item (g @ ''Encrypted''))"
    and s: "decrypt_result pf env_key (get_prop item (g @ ''Encrypted'')) = Inr s" by blast
  from assms(1) t s have a: "own_prop item1 g = Some (JStr s)"
    "own_prop item1 (g @ ''Encrypted'') = None"
    by (simp_all add: field_read_def del: get_prop.simps)
  then have "get_prop item1 (g @ ''Encrypted'') = JUndefined"
    by (simp add: get_prop_own del: get_prop.simps)
  with assms(2) a have "own_prop item' g = Some (JStr s)" "own_prop item' (g @ ''Encrypted'') = None"
    by (simp_all add: field_read_def del: get_prop.simps)
  with t s show ?thesis by (simp add: field_read_def del: get_prop.simps)
next
  case False
  with assms(1) have "own_prop item1 g = own_prop item g"
    "own_prop item1 (g @ ''Encrypted'') = own_prop item (g @ ''Encrypted'')"
    by (auto simp: field_read_def simp del: get_prop.simps split: sum.splits if_splits)
  from field_read_cong [OF assms(2) this] show ?thesis .
qed

lemma decrypt_fields_field:
  assumes "decrypt_fields pf env_key fs item w = (item', w')"
    and "plain_names fs" and "f \<in> set fs"
  shows "field_read pf env_key item item' f"
  using assms
proof (induction fs arbitrary: item w)
  case Nil
  then show ?case by simp
next
  case (Cons g fs)
  let ?item1 = "if truthy (get_prop item (g @ ''Encrypted''))
        then (case decrypt_result pf env_key (get_prop item (g @ ''Encrypted'')) of
                Inl e \<Rightarrow> item
              | Inr s \<Rightarrow> delete_prop (set_prop item g (JStr s)) (g @ ''Encrypted''))
        else item"
  from decrypt_fields_Cons [of pf env_key g fs item w] Cons.prems(1) obtain w1 where
    rest: "decrypt_fields pf env_key fs ?item1 w1 = (item', w')" by auto
  from Cons.prems(2) have pn: "plain_names fs" by (rule plain_names_Cons)
  have step: "field_read pf env_key item ?item1 g"
    by (rule field_read_step) simp
  show ?case
  proof (cases "f \<in> set fs")
    case True
    from Cons.IH [OF rest pn True] have ih: "field_read pf env_key ?item1 item' f" .
    show ?thesis
    proof (cases "f = g")
      case True
      with step ih show ?thesis by (auto intro: field_read_twice)
    next
      case False
      moreover from Cons.prems(2) \<open>f \<in> set fs\<close> have "f \<noteq> g @ ''Encrypted''" "g \<noteq> f @ ''Encrypted''"
        by (auto simp: plain_names_def)
      ultimately have "own_prop ?item1 f = own_prop item f"
        "own_prop ?item1 (f @ ''Encrypted'') = own_prop item (f @ ''Encrypted'')"
        by (auto simp: own_prop_delete own_prop_set truthy_get_prop_object
            simp del: get_prop.simps split: sum.splits)
      from field_read_cong [OF ih this] show ?thesis .
    qed
  next
    case False
    with Cons.prems(3) have fg: "f = g" by simp
    have a: "\<forall>h \<in> set fs. g \<noteq> h \<and> g \<noteq> h @ ''Encrypted''"
      using False fg Cons.prems(2) by (auto simp: plain_names_def)
    have b: "\<forall>h \<in> set fs. g @ ''Encrypted'' \<noteq> h \<and> g @ ''Encrypted'' \<noteq> h @ ''Encrypted''"
      using False fg Cons.prems(2) by (auto simp: plain_names_def)
    from field_read_frame [OF step decrypt_fields_frame [OF rest a] decrypt_fields_frame [OF rest b]]
    show ?thesis by (simp add: fg)
  qed
qed

lemma plain_names_sensitiveFields: "plain_names sensitiveFields"
  by (simp add: plain_names_def sensitiveFields_def)

lemma item_read_same:
  assumes "\<not> is_object item"
  shows "item_read pf env_key item item"
  using assms by (cases item) (simp_all add: item_read_def field_read_def)

lemma decrypt_fields_item_read:
  assumes "decrypt_fields pf env_key sensitiveFields item w = (item', w')"
  shows "item_read pf env_key item item'"
proof -
  have "item' = item" if "\<not> is_object item"
    using decrypt_fields_not_object [OF that, of pf env_key sensitiveFields w] assms by auto
  then show ?thesis
    using decrypt_fields_field [OF assms plain_names_sensitiveFields]
      decrypt_fields_frame [OF assms] decrypt_fields_is_object [OF assms]
    by (simp add: item_read_def)
qed

lemma falsy_not_object: "\<not> truthy item \<Longrightarrow> \<not> is_object item"
  by (cases item) simp_all

lemma decrypt_items_item_read:
  assumes "decrypt_items pf env_key items w = (items', w')"
  shows "list_all2 (item_read pf env_key) items items'"
  using assms
proof (induction items arbitrary: items' w w')
  case Nil
  then show ?case by simp
next
  case (Cons item items)
  obtain item1 w1 where one:
    "(if truthy item then decrypt_fields pf env_key sensitiveFields item w else (item, w))
       = (item1, w1)"
    by (cases "if truthy item then decrypt_fields pf env_key sensitiveFields item w else (item, w)")
  obtain rest w2 where more: "decrypt_items pf env_key items w1 = (rest, w2)"
    by (cases "decrypt_items pf env_key items w1")
  from Cons.prems one more have eq: "items' = item1 # rest" by simp
  have "item_read pf env_key item item1"
  proof (cases "truthy item")
    case True
    with one show ?thesis by (simp add: decrypt_fields_item_read)
  next
    case False
    with one show ?thesis by (auto simp: item_read_same falsy_not_object)
  qed
  with Cons.IH [OF more] eq show ?case by simp
qed

lemma is_read_not_write: "is_read p \<Longrightarrow> \<not> is_write p"
  by (auto simp: is_read_def is_write_def)

lemma encrypt_stage_not_write: "\<not> is_write p \<Longrightarrow> encrypt_stage pf env_key p w = (Inr p, w)"
  by (simp add: encrypt_stage_def)

subsection \<open>The events of a call\<close>

lemma adds_refl: "adds P w w"
  by (simp add: adds_def)

lemma adds_trans: "adds P w w1 \<Longrightarrow> adds P w1 w2 \<Longrightarrow> adds P w w2"
  by (auto simp: adds_def)

lemma adds_emit: "P e \<Longrightarrow> adds P w (emit e w)"
  by (simp add: adds_def emit_def)

lemma adds_mono: "adds P w w' \<Longrightarrow> (\<And>e. P e \<Longrightarrow> Q e) \<Longrightarrow> adds Q w w'"
  by (auto simp: adds_def)

lemma adds_new_events: "adds P w w' \<Longrightarrow> \<forall>e \<in> set (new_events w w'). P e"
  by (auto simp: adds_def new_events_def)

lemma new_events_same [simp]: "new_events w w = []"
  by (simp add: new_events_def)

lemma new_events_emit:
  "adds P w w1 \<Longrightarrow> new_events w (emit e w1) = new_events w w1 @ [e]"
  by (auto simp: adds_def new_events_def emit_def)

lemma new_events_trans:
  "adds P w w1 \<Longrightarrow> adds Q w1 w2 \<Longrightarrow> new_events w w2 = new_events w w1 @ new_events w1 w2"
  by (auto simp: adds_def new_events_def)

lemma randomBytes_adds: "adds is_cipher_op w (snd (randomBytes pf n w))"
  by (simp add: randomBytes_def adds_def emit_def)

lemma deriveKey_adds: "adds is_cipher_op w (snd (deriveKey pf mk salt w))"
  by (simp add: deriveKey_def adds_def emit_def split: option.splits)

lemma encrypt_try_adds: "adds is_cipher_op w (snd (encrypt_try pf env_key tx w))"
  by (auto simp: encrypt_try_def randomBytes_def deriveKey_def adds_def emit_def
      split: option.splits prod.splits sum.splits jsval.splits tag_result.splits)

lemma encrypt_Inr_adds:
  assumes "encrypt pf env_key tx w = (Inr r, w')"
  shows "adds is_cipher_op w w'"
  using assms encrypt_try_adds [of w pf env_key tx]
  by (auto simp: encrypt_def split: prod.splits sum.splits)

lemma encrypt_Inl:
  assumes "encrypt pf env_key tx w = (Inl e, w')"
  shows "e = Error ''Error al cifrar los datos'' \<and> adds (\<lambda>e. \<not> is_next e) w w'"
proof -
  obtain x w1 where t: "encrypt_try pf env_key tx w = (x, w1)"
    by (cases "encrypt_try pf env_key tx w")
  with encrypt_try_adds [of w pf env_key tx] have "adds is_cipher_op w w1" by simp
  then have "adds (\<lambda>e. \<not> is_next e) w w1"
    by (rule adds_mono) (case_tac e, simp_all)
  moreover have "adds (\<lambda>e. \<not> is_next e) w1 (emit (EvConsoleError ''Error en cifrado:'') w1)"
    by (rule adds_emit) simp
  ultimately have "adds (\<lambda>e. \<not> is_next e) w (emit (EvConsoleError ''Error en cifrado:'') w1)"
    by (rule adds_trans)
  with assms t show ?thesis
    by (cases x) (auto simp: encrypt_def)
qed

lemma encrypt_fields_Inr_adds:
  assumes "encrypt_fields pf env_key fs data w = (Inr data', w')"
  shows "adds is_cipher_op w w'"
  using assms
proof (induction fs arbitrary: data w)
  case Nil
  then show ?case by (simp add: adds_refl)
next
  case (Cons g fs)
  show ?case
  proof (cases "truthy (get_prop data g)")
    case True
    obtain x w1 where e: "encrypt pf env_key (get_prop data g) w = (x, w1)"
      by (cases "encrypt pf env_key (get_prop data g) w")
    show ?thesis
    proof (cases x)
      case (Inl err)
      with Cons.prems True e show ?thesis by (simp del: get_prop.simps)
    next
      case (Inr enc)
      with Cons.prems True e have
        "encrypt_fields pf env_key fs
           (delete_prop (set_prop data (g @ ''Encrypted'') (JStr (encrypted enc))) g) w1
         = (Inr data', w')"
        by (simp del: get_prop.simps)
      from Cons.IH [OF this] encrypt_Inr_adds [OF e [unfolded Inr]] show ?thesis
        by (blast intro: adds_trans)
    qed
  next
    case False
    with Cons show ?thesis by (simp del: get_prop.simps)
  qed
qed

lemma encrypt_fields_Inl:
  assumes "encrypt_fields pf env_key fs data w = (Inl e, w')"
  shows "e = Error ''Error al cifrar los datos'' \<and> adds (\<lambda>e. \<not> is_next e) w w'"
  using assms
proof (induction fs arbitrary: data w)
  case Nil
  then show ?case by simp
next
  case (Cons g fs)
  show ?case
  proof (cases "truthy (get_prop data g)")
    case True
    obtain x w1 where e: "encrypt pf env_key (get_prop data g) w = (x, w1)"
      by (cases "encrypt pf env_key (get_prop data g) w")
    show ?thesis
    proof (cases x)
      case (Inl err)
      with Cons.prems True e have "err = e" "w1 = w'" by (simp_all del: get_prop.simps)
      with encrypt_Inl [OF e [unfolded Inl]] show ?thesis by simp
    next
      case (Inr enc)
      with Cons.prems True e have
        "encrypt_fields pf env_key fs
           (delete_prop (set_prop data (g @ ''Encrypted'') (JStr (encrypted enc))) g) w1
         = (Inl e, w')"
        by (simp del: get_prop.simps)
      from Cons.IH [OF this] have "e = Error ''Error al cifrar los datos''"
        and "adds (\<lambda>e. \<not> is_next e) w1 w'" by simp_all
      moreover from encrypt_Inr_adds [OF e [unfolded Inr]] have "adds (\<lambda>e. \<not> is_next e) w w1"
        by (rule adds_mono) (case_tac e, simp_all)
      ultimately show ?thesis by (blast intro: adds_trans)
    qed
  next
    case False
    with Cons show ?thesis by (simp del: get_prop.simps)
  qed
qed

lemma encrypt_stage_Inr:
  assumes "encrypt_stage pf env_key p w = (Inr p1, w1)"
  shows "adds is_cipher_op w w1 \<and> model p1 = model p \<and> action p1 = action p"
proof (cases "is_write p \<and> truthy (get_prop (args p) ''data'')")
  case True
  then have a: "args p \<noteq> JUndefined" "args p \<noteq> JNull" by auto
  obtain x w2 where f:
    "encrypt_fields pf env_key sensitiveFields (get_prop (args p) ''data'') w = (x, w2)"
    by (cases "encrypt_fields pf env_key sensitiveFields (get_prop (args p) ''data'') w")
  show ?thesis
  proof (cases x)
    case (Inl e)
    with assms True a f show ?thesis
      by (cases "args p") (simp_all add: encrypt_stage_def del: get_prop.simps)
  next
    case (Inr d)
    with assms True a f have "w1 = w2" "model p1 = model p" "action p1 = action p"
      by (cases "args p"; auto simp: encrypt_stage_def simp del: get_prop.simps)+
    with encrypt_fields_Inr_adds [OF f [unfolded Inr]] show ?thesis by simp
  qed
next
  case False
  with assms have "p1 = p" "w1 = w"
    by (cases "args p"; auto simp: encrypt_stage_def split: if_splits simp del: get_prop.simps)+
  then show ?thesis by (simp add: adds_refl)
qed

lemma encrypt_stage_Inl:
  assumes "encrypt_stage pf env_key p w = (Inl e, w1)"
  shows "is_write p \<and> adds (\<lambda>e. \<not> is_next e) w w1
         \<and> (e = Error ''Error al cifrar los datos'' \<or> w1 = w)"
proof -
  have wr: "is_write p" using assms by (auto simp: encrypt_stage_def split: if_splits)
  show ?thesis
  proof (cases "truthy (get_prop (args p) ''data'')")
    case True
    then have a: "args p \<noteq> JUndefined" "args p \<noteq> JNull" by auto
    obtain x w2 where f:
      "encrypt_fields pf env_key sensitiveFields (get_prop (args p) ''data'') w = (x, w2)"
      by (cases "encrypt_fields pf env_key sensitiveFields (get_prop (args p) ''data'') w")
    show ?thesis
    proof (cases x)
      case (Inl err)
      with assms True a f wr have "err = e" "w2 = w1"
        by (cases "args p"; simp add: encrypt_stage_def del: get_prop.simps)+
      with encrypt_fields_Inl [OF f [unfolded Inl]] wr show ?thesis by simp
    next
      case (Inr d)
      with assms True a f wr show ?thesis
        by (cases "args p") (simp_all add: encrypt_stage_def del: get_prop.simps)
    qed
  next
    case False
    with assms wr have "w1 = w"
      by (cases "args p"; simp add: encrypt_stage_def del: get_prop.simps)+
    with wr show ?thesis by (simp add: adds_refl)
  qed
qed

lemma cipher_op_read_event: "is_cipher_op e \<Longrightarrow> read_event e"
  by (cases e) (simp_all add: read_event_def)

lemma decrypt_try_adds: "adds is_cipher_op w (snd (decrypt_try pf env_key v w))"
  by (auto simp: decrypt_try_def deriveKey_def adds_def emit_def Let_def
      split: option.splits prod.splits sum.splits set_tag_result.splits)

lemma decrypt_adds: "adds read_event w (snd (decrypt pf env_key v w))"
proof -
  obtain x w1 where t: "decrypt_try pf env_key v w = (x, w1)"
    by (cases "decrypt_try pf env_key v w")
  with decrypt_try_adds [where w = w and pf = pf and env_key = env_key and v = v]
  have "adds is_cipher_op w w1" by simp
  then have a: "adds read_event w w1"
    by (rule adds_mono) (rule cipher_op_read_event)
  have "adds read_event w1 (emit (EvConsoleError ''Error en descifrado:'') w1)"
    by (rule adds_emit) (simp add: read_event_def)
  with a have "adds read_event w (emit (EvConsoleError ''Error en descifrado:'') w1)"
    by (rule adds_trans)
  with a t show ?thesis by (cases x) (simp_all add: decrypt_def)
qed

lemma decrypt_fields_adds:
  "adds read_event w (snd (decrypt_fields pf env_key fs item w))"
proof (induction fs arbitrary: item w)
  case Nil
  show ?case by (simp add: adds_refl)
next
  case (Cons g fs)
  show ?case
  proof (cases "truthy (get_prop item (g @ ''Encrypted''))")
    case True
    obtain x w1 where d: "decrypt pf env_key (get_prop item (g @ ''Encrypted'')) w = (x, w1)"
      by (cases "decrypt pf env_key (get_prop item (g @ ''Encrypted'')) w")
    with decrypt_adds [where w = w and pf = pf and env_key = env_key
        and v = "get_prop item (g @ ''Encrypted'')"]
    have a: "adds read_event w w1" by simp
    show ?thesis
    proof (cases x)
      case (Inl err)
      have "adds read_event w1 (emit (EvConsoleError (''Error descifrando '' @ g @ '':'')) w1)"
        by (rule adds_emit) (simp add: read_event_def)
      with a have "adds read_event w (emit (EvConsoleError (''Error descifrando '' @ g @ '':'')) w1)"
        by (rule adds_trans)
      moreover have "adds read_event (emit (EvConsoleError (''Error descifrando '' @ g @ '':'')) w1)
          (snd (decrypt_fields pf env_key fs item
                  (emit (EvConsoleError (''Error descifrando '' @ g @ '':'')) w1)))"
        by (rule Cons.IH)
      ultimately have "adds read_event w
          (snd (decrypt_fields pf env_key fs item
                  (emit (EvConsoleError (''Error descifrando '' @ g @ '':'')) w1)))"
        by (rule adds_trans)
      with True d Inl show ?thesis by (simp del: get_prop.simps)
    next
      case (Inr s)
      have "adds read_event w1
          (snd (decrypt_fields pf env_key fs
                  (delete_prop (set_prop item g (JStr s)) (g @ ''Encrypted'')) w1))"
        by (rule Cons.IH)
      with a have "adds read_event w
          (snd (decrypt_fields pf env_key fs
                  (delete_prop (set_prop item g (JStr s)) (g @ ''Encrypted'')) w1))"
        by (rule adds_trans)
      with True d Inr show ?thesis by (simp del: get_prop.simps)
    qed
  next
    case False
    moreover have "adds read_event w (snd (decrypt_fields pf env_key fs item w))"
      by (rule Cons.IH)
    ultimately show ?thesis by (simp del: get_prop.simps)
  qed
qed

lemma decrypt_items_adds:
  "adds read_event w (snd (decrypt_items pf env_key items w))"
proof (induction items arbitrary: w)
  case Nil
  show ?case by (simp add: adds_refl)
next
  case (Cons item items)
  obtain item1 w1 where one:
    "(if truthy item then decrypt_fields pf env_key sensitiveFields item w else (item, w))
       = (item1, w1)"
    by (cases "if truthy item then decrypt_fields pf env_key sensitiveFields item w else (item, w)")
  have "adds read_event w (snd (decrypt_fields pf env_key sensitiveFields item w))"
    by (rule decrypt_fields_adds)
  with one have a: "adds read_event w w1"
    by (auto simp: adds_refl split: if_splits)
  obtain rest w2 where more: "decrypt_items pf env_key items w1 = (rest, w2)"
    by (cases "decrypt_items pf env_key items w1")
  moreover have "adds read_event w1 (snd (decrypt_items pf env_key items w1))"
    by (rule Cons.IH)
  ultimately have "adds read_event w1 w2" by simp
  with a have "adds read_event w w2" by (rule adds_trans)
  with one more show ?case by simp
qed

lemma decrypt_stage_adds:
  "adds read_event w (snd (decrypt_stage pf env_key p result w))"
proof (cases "is_read p \<and> truthy result")
  case True
  have f: "adds read_event w (snd (decrypt_fields pf env_key sensitiveFields result w))"
    by (rule decrypt_fields_adds)
  show ?thesis
  proof (cases result)
    case (JArr items)
    have "adds read_event w (snd (decrypt_items pf env_key items w))"
      by (rule decrypt_items_adds)
    with True JArr show ?thesis
      by (cases "decrypt_items pf env_key items w") (simp add: decrypt_stage_def)
  qed (use True f in \<open>simp_all add: decrypt_stage_def\<close>)
next
  case False
  then show ?thesis by (auto simp: decrypt_stage_def adds_refl)
qed

lemma decrypt_stage_not_read:
  "\<not> is_read p \<Longrightarrow> decrypt_stage pf env_key p result w = (result, w)"
  by (simp add: decrypt_stage_def)

lemma middleware_Inl:
  assumes "encrypt_stage pf env_key p w = (Inl e, w1)"
  shows "middleware pf env_key p next w = (Inl e, w1)"
  using assms by (simp add: middleware_def)

lemma middleware_Inr:
  assumes "encrypt_stage pf env_key p w = (Inr p1, w1)"
  shows "\<exists>res w'. middleware pf env_key p next w = (res, w')
           \<and> adds read_event (emit (EvNext p1) w1) w'
           \<and> (\<not> is_read p \<longrightarrow> res = next p1 \<and> w' = emit (EvNext p1) w1)"
proof (cases "next p1")
  case (Inl e)
  with assms show ?thesis by (simp add: middleware_def adds_refl)
next
  case (Inr result)
  obtain r' w2 where d: "decrypt_stage pf env_key p1 result (emit (EvNext p1) w1) = (r', w2)"
    by (cases "decrypt_stage pf env_key p1 result (emit (EvNext p1) w1)")
  moreover have "adds read_event (emit (EvNext p1) w1)
      (snd (decrypt_stage pf env_key p1 result (emit (EvNext p1) w1)))"
    by (rule decrypt_stage_adds)
  ultimately have a: "adds read_event (emit (EvNext p1) w1) w2" by simp
  from encrypt_stage_Inr [OF assms] have "is_read p1 = is_read p"
    by (simp add: is_read_def)
  with d have "\<not> is_read p \<longrightarrow> r' = result \<and> w2 = emit (EvNext p1) w1"
    by (auto simp: decrypt_stage_not_read)
  with assms Inr d a show ?thesis by (simp add: middleware_def)
qed

lemma encrypt_fails_iff_logged:
  "(\<exists>e. fst (encrypt pf env_key v w) = Inl e)
   \<longleftrightarrow> EvConsoleError ''Error en cifrado:'' \<in> set (new_events w (snd (encrypt pf env_key v w)))"
proof -
  obtain x w1 where t: "encrypt_try pf env_key v w = (x, w1)"
    by (cases "encrypt_try pf env_key v w")
  have "adds is_cipher_op w (snd (encrypt_try pf env_key v w))"
    by (rule encrypt_try_adds)
  with t have a: "adds is_cipher_op w w1" by simp
  show ?thesis
  proof (cases x)
    case (Inl e)
    with t have "encrypt pf env_key v w
        = (Inl (Error ''Error al cifrar los datos''), emit (EvConsoleError ''Error en cifrado:'') w1)"
      by (simp add: encrypt_def)
    with new_events_emit [OF a, of "EvConsoleError ''Error en cifrado:''"] show ?thesis by simp
  next
    case (Inr r)
    with t have "encrypt pf env_key v w = (Inr r, w1)" by (simp add: encrypt_def)
    with adds_new_events [OF a] show ?thesis by auto
  qed
qed

subsection \<open>\<open>decryptObject\<close>\<close>

text \<open>
  \<open>decryptObject\<close> has no error to return. On a list of plain names it does to the
  copy of the object what the read loop of the hook does to an item.
\<close>

lemma decryptObject_loop_Cons:
  "\<exists>w1. decryptObject_loop pf env_key obj (g # fs) result w =
     decryptObject_loop pf env_key obj fs
       (if truthy (get_prop (JObj obj) (g @ ''Encrypted''))
        then (case decrypt_result pf env_key (get_prop (JObj obj) (g @ ''Encrypted'')) of
                Inl e \<Rightarrow> result
              | Inr s \<Rightarrow> AList.delete (g @ ''Encrypted'') (AList.update g (JStr s) result))
        else result) w1"
proof (cases "truthy (get_prop (JObj obj) (g @ ''Encrypted''))")
  case True
  obtain x w1 where d: "decrypt pf env_key (get_prop (JObj obj) (g @ ''Encrypted'')) w = (x, w1)"
    by (cases "decrypt pf env_key (get_prop (JObj obj) (g @ ''Encrypted'')) w")
  then have r: "decrypt_result pf env_key (get_prop (JObj obj) (g @ ''Encrypted'')) = x"
    using fst_decrypt [of pf env_key "get_prop (JObj obj) (g @ ''Encrypted'')" w] by simp
  show ?thesis
    using True d r by (cases x) (auto simp del: get_prop.simps)
next
  case False
  then show ?thesis by (auto simp del: get_prop.simps)
qed

lemma decryptObject_loop_frame:
  assumes "decryptObject_loop pf env_key obj fs result w = (out, w')"
    and "\<forall>f \<in> set fs. k \<noteq> f \<and> k \<noteq> f @ ''Encrypted''"
  shows "map_of out k = map_of result k"
  using assms
proof (induction fs arbitrary: result w)
  case Nil
  then show ?case by simp
next
  case (Cons g fs)
  let ?result1 = "if truthy (get_prop (JObj obj) (g @ ''Encrypted''))
        then (case decrypt_result pf env_key (get_prop (JObj obj) (g @ ''Encrypted'')) of
                Inl e \<Rightarrow> result
              | Inr s \<Rightarrow> AList.delete (g @ ''Encrypted'') (AList.update g (JStr s) result))
        else result"
  from decryptObject_loop_Cons [of pf env_key obj g fs result w] Cons.prems(1) obtain w1 where
    rest: "decryptObject_loop pf env_key obj fs ?result1 w1 = (out, w')" by auto
  from Cons.prems(2) have k: "k \<noteq> g" "k \<noteq> g @ ''Encrypted''"
    and ks: "\<forall>f \<in> set fs. k \<noteq> f \<and> k \<noteq> f @ ''Encrypted''" by auto
  have "map_of ?result1 k = map_of result k"
    using k by (auto simp: delete_conv' update_conv' split: sum.splits)
  with Cons.IH [OF rest ks] show ?case by simp
qed

lemma decryptObject_loop_field:
  assumes "decryptObject_loop pf env_key obj fs result w = (out, w')"
    and "plain_names fs" and "f \<in> set fs"
  shows "if truthy (get_prop (JObj obj) (f @ ''Encrypted''))
            \<and> (\<exists>s. decrypt_result pf env_key (get_prop (JObj obj) (f @ ''Encrypted'')) = Inr s)
         then map_of out f
                = Some (JStr (projr (decrypt_result pf env_key (get_prop (JObj obj) (f @ ''Encrypted'')))))
              \<and> map_of out (f @ ''Encrypted'') = None
         else map_of out f = map_of result f
              \<and> map_of out (f @ ''Encrypted'') = map_of result (f @ ''Encrypted'')"
  using assms
proof (induction fs arbitrary: result w)
  case Nil
  then show ?case by simp
next
  case (Cons g fs)
  let ?v = "\<lambda>h. get_prop (JObj obj) (h @ ''Encrypted'')"
  let ?result1 = "if truthy (?v g)
        then (case decrypt_result pf env_key (?v g) of
                Inl e \<Rightarrow> result
              | Inr s \<Rightarrow> AList.delete (g @ ''Encrypted'') (AList.update g (JStr s) result))
        else result"
  from decryptObject_loop_Cons [of pf env_key obj g fs result w] Cons.prems(1) obtain w1 where
    rest: "decryptObject_loop pf env_key obj fs ?result1 w1 = (out, w')" by auto
  from Cons.prems(2) have pn: "plain_names fs" by (rule plain_names_Cons)
  show ?case
  proof (cases "f \<in> set fs")
    case True
    note ih = Cons.IH [OF rest pn True]
    show ?thesis
    proof (cases "f = g")
      case True
      have "truthy (?v g) \<and> (\<exists>s. decrypt_result pf env_key (?v g) = Inr s)
          \<or> ?result1 = result"
        by (auto split: sum.splits)
      with ih True show ?thesis by (auto simp del: get_prop.simps split: if_splits)
    next
      case False
      moreover from Cons.prems(2) \<open>f \<in> set fs\<close>
      have "f \<noteq> g @ ''Encrypted''" "g \<noteq> f @ ''Encrypted''"
        by (auto simp: plain_names_def)
      ultimately have "map_of ?result1 f = map_of result f"
        "map_of ?result1 (f @ ''Encrypted'') = map_of result (f @ ''Encrypted'')"
        by (auto simp: delete_conv' update_conv' simp del: get_prop.simps split: sum.splits)
      with ih show ?thesis by (simp del: get_prop.simps)
    qed
  next
    case False
    with Cons.prems(3) have fg: "f = g" by simp
    have a: "\<forall>h \<in> set fs. g \<noteq> h \<and> g \<noteq> h @ ''Encrypted''"
      using False fg Cons.prems(2) by (auto simp: plain_names_def)
    have b: "\<forall>h \<in> set fs. g @ ''Encrypted'' \<noteq> h \<and> g @ ''Encrypted'' \<noteq> h @ ''Encrypted''"
      using False fg Cons.prems(2) by (auto simp: plain_names_def)
    have "map_of out g = map_of ?result1 g"
      by (rule decryptObject_loop_frame [OF rest a])
    moreover have "map_of out (g @ ''Encrypted'') = map_of ?result1 (g @ ''Encrypted'')"
      by (rule decryptObject_loop_frame [OF rest b])
    ultimately show ?thesis
      unfolding fg
      by (auto simp: delete_conv' update_conv' simp del: get_prop.simps split: sum.splits)
  qed
qed

lemma decryptObject_tolerant:
  assumes pn: "plain_names fs"
  shows "\<exists>out w'. decryptObject pf env_key obj fs w = (out, w')
           \<and> (\<forall>f \<in> set fs. field_read pf env_key (JObj obj) (JObj out) f)
           \<and> (\<forall>k. (\<forall>f \<in> set fs. k \<noteq> f \<and> k \<noteq> f @ ''Encrypted'')
                  \<longrightarrow> map_of out k = map_of obj k)"
proof -
  obtain out w' where d: "decryptObject_loop pf env_key obj fs obj w = (out, w')"
    by (cases "decryptObject_loop pf env_key obj fs obj w")
  have "field_read pf env_key (JObj obj) (JObj out) f" if "f \<in> set fs" for f
    using decryptObject_loop_field [OF d pn that]
    by (auto simp: field_read_def simp del: get_prop.simps split: sum.splits if_splits)
  moreover have "map_of out k = map_of obj k"
    if "\<forall>f \<in> set fs. k \<noteq> f \<and> k \<noteq> f @ ''Encrypted''" for k
    by (rule decryptObject_loop_frame [OF d that])
  ultimately show ?thesis using d by (auto simp: decryptObject_def)
qed

subsection \<open>Runs on the small platform\<close>

lemma ref_encryptObject_Dana:
  "encryptObject ref_platform (Some ref_key)
     [(''firstName'', JStr ''Dana''), (''other'', JStr ''x'')] [''firstName''] world0 =
   (Inr [(''other'', JStr ''x''),
         (''firstNameEncrypted'',
          JStr ''AwoRGB8mLTQ7QklQV15lbHN6gYiPlp2kq7K5wMfO1dzj6vH4/wYNFBsiKTA3PkVMCSMjIyMjIyMjIyMjIyMjI2dCTUI='')],
    \<lparr>drawn = 48,
     events = [EvRandomBytes 32, EvRandomBytes 16, EvScrypt, EvCreateCipher, EvGetAuthTag]\<rparr>)"
  by code_simp

lemma ref_encrypt_x:
  "encrypt ref_platform (Some ref_key) (JStr ''x'') world0 =
     (Inr \<lparr>encrypted =
         ''AwoRGB8mLTQ7QklQV15lbHN6gYiPlp2kq7K5wMfO1dzj6vH4/wYNFBsiKTA3PkVMeCMjIyMjIyMjIyMjIyMjI1s='',
         authTag = ''78232323232323232323232323232323'',
         iv = ''e3eaf1f8ff060d141b222930373e454c''\<rparr>,
      \<lparr>drawn = 48,
       events = [EvRandomBytes 32, EvRandomBytes 16, EvScrypt, EvCreateCipher, EvGetAuthTag]\<rparr>)"
  by code_simp

lemma ref_encrypt_y:
  "encrypt ref_platform (Some ref_key) (JStr ''y'')
     \<lparr>drawn = 48,
      events = [EvRandomBytes 32, EvRandomBytes 16, EvScrypt, EvCreateCipher, EvGetAuthTag]\<rparr> =
     (Inr \<lparr>encrypted =
         ''U1phaG92fYSLkpmgp661vMPK0djf5u30+wIJEBceJSwzOkFIT1ZdZGtyeYCHjpWceXNzc3Nzc3Nzc3Nzc3Nzcwo='',
         authTag = ''79737373737373737373737373737373'',
         iv = ''333a41484f565d646b727980878e959c''\<rparr>,
      \<lparr>drawn = 96,
       events = [EvRandomBytes 32, EvRandomBytes 16, EvScrypt, EvCreateCipher, EvGetAuthTag,
                 EvRandomBytes 32, EvRandomBytes 16, EvScrypt, EvCreateCipher, EvGetAuthTag]\<rparr>)"
  by code_simp

lemma ref_encryptObject_a:
  "fst (encryptObject ref_platform (Some ref_key)
          [(''a'', JStr ''x''), (''aEncrypted'', JStr ''y'')] [''a'', ''aEncrypted''] world0) =
     Inr [(''aEncryptedEncrypted'',
           JStr ''U1phaG92fYSLkpmgp661vMPK0djf5u30+wIJEBceJSwzOkFIT1ZdZGtyeYCHjpWceXNzc3Nzc3Nzc3Nzc3Nzcwo='')]"
  by (simp add: encryptObject_def ref_encrypt_x ref_encrypt_y AList.delete_eq)

lemma ref_encryptObject_stale:
  "fst (encryptObject ref_platform (Some ref_key)
          [(''firstName'', JStr ''Dana''), (''firstNameEncrypted'', JStr ''old'')]
          [''firstName''] world0) =
     Inr [(''firstNameEncrypted'',
           JStr ''AwoRGB8mLTQ7QklQV15lbHN6gYiPlp2kq7K5wMfO1dzj6vH4/wYNFBsiKTA3PkVMCSMjIyMjIyMjIyMjIyMjI2dCTUI='')]"
  by code_simp

lemma ref_encryptObject_no_key:
  "fst (encryptObject ref_platform None
          [(''firstName'', JStr ''Dana''), (''other'', JStr ''x'')] [''firstName''] world0) =
     Inl (Error ''Error al cifrar los datos'')"
  by code_simp

lemma ref_find_many:
  "middleware ref_platform (Some ref_key) find_many
     (\<lambda>q. Inr (JArr [record_corrupted, record_valid])) world0 =
   (Inr (JArr [JObj [(''id'', JNum 1), (''phoneEncrypted'', JStr ''corrupted'')],
               JObj [(''id'', JNum 2), (''phone'', JStr ''555-1234'')]]),
    \<lparr>drawn = 0,
     events = [EvNext find_many,
               EvScrypt, EvCreateDecipher, EvSetAuthTag,
               EvConsoleError ''Error en descifrado:'',
               EvConsoleError ''Error descifrando phone:'',
               EvScrypt, EvCreateDecipher, EvSetAuthTag]\<rparr>)"
  by code_simp

lemma ref_create_profile:
  "middleware ref_platform (Some ref_key) create_profile
     (\<lambda>q. Inr (get_prop (args q) ''data'')) world0 =
   (Inl (Error ''Error al cifrar los datos''),
    \<lparr>drawn = 96,
     events = [EvRandomBytes 32, EvRandomBytes 16, EvScrypt, EvCreateCipher, EvGetAuthTag,
               EvRandomBytes 32, EvRandomBytes 16, EvScrypt, EvCreateCipher,
               EvConsoleError ''Error en cifrado:'']\<rparr>)"
  by code_simp

lemma ref_upsert_profile:
  "middleware ref_platform (Some ref_key) upsert_profile
     (\<lambda>q. Inr (get_prop (args q) ''create'')) world0 =
   (Inr (JObj [(''firstName'', JStr ''Dana'')]),
    \<lparr>drawn = 0, events = [EvNext upsert_profile]\<rparr>)"
  by code_simp

section \<open>Properties\<close>

subsection \<open>C1: round trip\<close>



subsection \<open>C2: tampering\<close>

text \<open>
  C2, as the code has it. On a platform whose decipher is tamper-evident, take a blob
  that \<open>encrypt\<close> returned and flip one bit of its tag or ciphertext region (any bit
  from position \<open>8 * 48\<close> on): \<open>decrypt\<close> of the result throws, so it returns no
  plaintext at all. What it throws is the one error of \<open>decrypt\<close>,
  \<open>Error('Error al descifrar los datos')\<close>.
\<close>

theorem tampered_blob_rejected:
  assumes te: "tamper_evident pf" and ciph: "cipher_returns pf"
    and enc: "encrypt pf (Some masterKey) text w = (Inr r, w')"
    and lo: "8 * (saltLength + ivLength) \<le> i"
    and hi: "i < 8 * length (from_base64 (encrypted r))"
  shows "fst (decrypt pf (Some masterKey)
               (JStr (to_base64 (flip_buffer_bit i (from_base64 (encrypted r))))) w'')
         = Inl (Error ''Error al descifrar los datos'')"
proof -
  let ?rs = "random_source pf"
  define salt where "salt = map ?rs [drawn w ..< drawn w + 32]"
  define iv0 where "iv0 = map ?rs [drawn w + 32 ..< drawn w + 48]"
  from enc have "encrypt_try pf (Some masterKey) text w = (Inr r, w')"
    by (simp add: encrypt_Inr_iff)
  from encrypt_try_InrD [OF this] obtain s key ct where
    len: "32 \<le> length masterKey" and "text = JStr s"
    and key: "scrypt pf masterKey salt keyLength = Some key"
    and ct: "cipher_run pf algorithm key s = Some ct"
    and b: "encrypted r = to_base64 (salt @ iv0 @ from_hex (authTag r) @ ct)"
    and g: "(case cipher_auth_tag pf algorithm key s of
                 TagAbsent \<Rightarrow> authTag r = []
               | TagThrows \<Rightarrow> authTag r = to_hex (map ?rs [drawn w + 48 ..< drawn w + 64])
               | Tag t \<Rightarrow> authTag r = to_hex t)"
    unfolding salt_def iv0_def by auto
  from ciph obtain t where t: "cipher_auth_tag pf algorithm key s = Tag t" and lt: "length t = 16"
    by (auto simp: cipher_returns_def tagLength_def)
  from g t have "authTag r = to_hex t" by simp
  with b have comb: "from_base64 (encrypted r) = salt @ iv0 @ t @ ct"
    by (simp add: from_base64_to_base64 from_hex_to_hex)
  have ls: "length salt = 32" and li: "length iv0 = 16"
    by (simp_all add: salt_def iv0_def)
  have ne: "masterKey \<noteq> []" using len by auto
  from lo have lo': "384 \<le> i" by (simp add: saltLength_def ivLength_def)
  from hi comb ls li lt have hi': "i < 512 + 8 * length ct" by simp
  from te have notag: "decipher_run pf algorithm key None c = None" for c
    by (simp add: tamper_evident_def)
  show ?thesis
  proof (cases "i < 512")
    case True
    have "flip_buffer_bit i ((salt @ iv0) @ t @ ct)
        = (salt @ iv0) @ flip_buffer_bit (i - 8 * length (salt @ iv0)) (t @ ct)"
      by (rule flip_buffer_bit_append_ge) (use lo' ls li in simp)
    moreover have "flip_buffer_bit (i - 384) (t @ ct) = flip_buffer_bit (i - 384) t @ ct"
      by (rule flip_buffer_bit_append_less) (use True lo' lt in simp)
    ultimately have fl: "flip_buffer_bit i (salt @ iv0 @ t @ ct)
        = salt @ iv0 @ flip_buffer_bit (i - 384) t @ ct"
      using ls li by simp
    from True lo' lt have "i - 384 < 8 * length t" by simp
    with te ct t have rej: "decipher_run pf algorithm key (Some (flip_buffer_bit (i - 384) t)) ct = None"
      unfolding tamper_evident_def by blast
    show ?thesis
      using decrypt_layout [OF ne ls li, of "flip_buffer_bit (i - 384) t" pf ct w''] lt
      by (simp add: comb fl key rej notag)
  next
    case False
    have "flip_buffer_bit i ((salt @ iv0 @ t) @ ct)
        = (salt @ iv0 @ t) @ flip_buffer_bit (i - 8 * length (salt @ iv0 @ t)) ct"
      by (rule flip_buffer_bit_append_ge) (use False ls li lt in simp)
    then have fl: "flip_buffer_bit i (salt @ iv0 @ t @ ct)
        = salt @ iv0 @ t @ flip_buffer_bit (i - 512) ct"
      using ls li lt by simp
    from False hi' have "i - 512 < 8 * length ct" by simp
    with te ct t have rej: "decipher_run pf algorithm key (Some t) (flip_buffer_bit (i - 512) ct) = None"
      unfolding tamper_evident_def by blast
    show ?thesis
      using decrypt_layout [OF ne ls li lt, of pf "flip_buffer_bit (i - 512) ct" w'']
      by (simp add: comb fl key rej notag)
  qed
qed

theorem tampered_blob_rejected_witness:
  "tamper_evident ref_platform \<and> cipher_returns ref_platform
   \<and> 8 * (saltLength + ivLength) \<le> 400
   \<and> fst (decrypt ref_platform (Some ref_key)
         (JStr ''AwoRGB8mLTQ7QklQV15lbHN6gYiPlp2kq7K5wMfO1dzj6vH4/wYNFBsiKTA3PkVMCSMiIyMjIyMjIyMjIyMjI2dCTUI='')
         world0)
       = Inl (Error ''Error al descifrar los datos'')"
proof -
  have lo: "8 * (saltLength + ivLength) \<le> 400"
    by (simp add: saltLength_def ivLength_def)
  have hi: "400 < 8 * length (from_base64 (encrypted
      \<lparr>encrypted =
         ''AwoRGB8mLTQ7QklQV15lbHN6gYiPlp2kq7K5wMfO1dzj6vH4/wYNFBsiKTA3PkVMCSMjIyMjIyMjIyMjIyMjI2dCTUI='',
       authTag = ''09232323232323232323232323232323'',
       iv = ''e3eaf1f8ff060d141b222930373e454c''\<rparr>))"
    by code_simp
  have fl: "to_base64 (flip_buffer_bit 400 (from_base64 (encrypted
      \<lparr>encrypted =
         ''AwoRGB8mLTQ7QklQV15lbHN6gYiPlp2kq7K5wMfO1dzj6vH4/wYNFBsiKTA3PkVMCSMjIyMjIyMjIyMjIyMjI2dCTUI='',
       authTag = ''09232323232323232323232323232323'',
       iv = ''e3eaf1f8ff060d141b222930373e454c''\<rparr>)))
     = ''AwoRGB8mLTQ7QklQV15lbHN6gYiPlp2kq7K5wMfO1dzj6vH4/wYNFBsiKTA3PkVMCSMiIyMjIyMjIyMjIyMjI2dCTUI=''"
    by code_simp
  show ?thesis
    using tampered_blob_rejected [OF ref_tamper_evident ref_cipher_returns ref_encrypt_Dana lo hi,
        of world0]
      ref_tamper_evident ref_cipher_returns lo
    by (simp only: fl)
qed

theorem tamper_error_not_distinct_counterexample:
  "fst (decrypt ref_platform (Some ref_key)
         (JStr ''AwoRGB8mLTQ7QklQV15lbHN6gYiPlp2kq7K5wMfO1dzj6vH4/wYNFBsiKTA3PkVMCSMiIyMjIyMjIyMjIyMjI2dCTUI='')
         world0)
     = Inl (Error ''Error al descifrar los datos'')
   \<and> fst (decrypt ref_platform None
         (JStr ''AwoRGB8mLTQ7QklQV15lbHN6gYiPlp2kq7K5wMfO1dzj6vH4/wYNFBsiKTA3PkVMCSMiIyMjIyMjIyMjIyMjI2dCTUI='')
         world0)
     = Inl (Error ''Error al descifrar los datos'')
   \<and> fst (decrypt ref_platform (Some ref_key) (JNum 5) world0)
     = Inl (Error ''Error al descifrar los datos'')"
  by code_simp

subsection \<open>C3: the master key check\<close>

text \<open>
  C3, as the code has it. \<open>encrypt\<close> called while the master key is absent or shorter
  than 32 characters, and \<open>decrypt\<close> called while it is absent or empty, throw before
  any call into \<open>crypto\<close>: the only effect is the \<open>console.error\<close> of the \<open>catch\<close>.
  What is thrown is the one error of the function, the same as for every other failure.
\<close>

theorem key_check_fails_early:
  "((env_key = None \<or> (\<exists>k. env_key = Some k \<and> length k < 32))
      \<longrightarrow> encrypt pf env_key text w =
            (Inl (Error ''Error al cifrar los datos''),
             emit (EvConsoleError ''Error en cifrado:'') w))
   \<and> ((env_key = None \<or> env_key = Some [])
      \<longrightarrow> decrypt pf env_key encryptedData w =
            (Inl (Error ''Error al descifrar los datos''),
             emit (EvConsoleError ''Error en descifrado:'') w))"
  by (auto simp: encrypt_def encrypt_try_def decrypt_def decrypt_try_def)

theorem key_check_fails_early_witness:
  "encrypt ref_platform (Some ''too short'') (JStr ''Dana'') world0 =
     (Inl (Error ''Error al cifrar los datos''),
      \<lparr>drawn = 0, events = [EvConsoleError ''Error en cifrado:'']\<rparr>)
   \<and> decrypt ref_platform None (JStr ''QUJD'') world0 =
     (Inl (Error ''Error al descifrar los datos''),
      \<lparr>drawn = 0, events = [EvConsoleError ''Error en descifrado:'']\<rparr>)"
  using key_check_fails_early [of "Some ''too short''" ref_platform "JStr ''Dana''" world0]
    key_check_fails_early [of None ref_platform "JStr ''Dana''" world0 "JStr ''QUJD''"]
  by (simp add: emit_def world0_def)

theorem key_check_counterexample:
  "decrypt ref_platform (Some ''short'')
     (JStr ''AAAAAAAAAAAAAAAAAAAAAAAAAAAAAAAAAAAAAAAAAAABAQEBAQEBAQEBAQEBAQEBLwUFBQUFBQUFBQUFBQUFBUFka2Q='')
     world0
     = (Inr ''Dana'', \<lparr>drawn = 0, events = [EvScrypt, EvCreateDecipher, EvSetAuthTag]\<rparr>)
   \<and> fst (encrypt ref_platform None (JStr ''Dana'') world0)
     = Inl (Error ''Error al cifrar los datos'')
   \<and> fst (encrypt failing_cipher_platform (Some ref_key) (JStr ''Dana'') world0)
     = Inl (Error ''Error al cifrar los datos'')"
  by code_simp

subsection \<open>C4: wire format\<close>

text \<open>
  C4. Where \<open>getAuthTag\<close> exists and tags have 16 bytes, every blob that \<open>encrypt\<close>
  returns decodes to the 32 bytes of salt that were drawn, the 16 bytes of IV that were
  drawn next, the 16 bytes of the tag (those of the field \<open>authTag\<close>) and the
  ciphertext, in this order, for every text and every random source.
\<close>

theorem encrypt_wire_format:
  assumes sized: "tag_sized pf" and enc: "encrypt pf env_key text w = (Inr r, w')"
  shows "\<exists>salt iv0 tag ct.
           from_base64 (encrypted r) = salt @ iv0 @ tag @ ct
           \<and> length salt = 32 \<and> length iv0 = 16 \<and> length tag = 16
           \<and> salt = map (random_source pf) [drawn w ..< drawn w + 32]
           \<and> iv0 = map (random_source pf) [drawn w + 32 ..< drawn w + 48]
           \<and> authTag r = to_hex tag \<and> iv r = to_hex iv0
           \<and> (\<exists>masterKey key s. env_key = Some masterKey \<and> text = JStr s
                 \<and> scrypt pf masterKey salt keyLength = Some key
                 \<and> cipher_run pf algorithm key s = Some ct)"
proof -
  from enc have "encrypt_try pf env_key text w = (Inr r, w')"
    by (simp add: encrypt_Inr_iff)
  from encrypt_try_InrD [OF this] obtain masterKey s key ct where
    k: "env_key = Some masterKey" "text = JStr s"
      "scrypt pf masterKey (map (random_source pf) [drawn w ..< drawn w + 32]) keyLength = Some key"
      "cipher_run pf algorithm key s = Some ct"
    and e: "encrypted r = to_base64 (map (random_source pf) [drawn w ..< drawn w + 32]
                 @ map (random_source pf) [drawn w + 32 ..< drawn w + 48]
                 @ from_hex (authTag r) @ ct)"
    and i: "iv r = to_hex (map (random_source pf) [drawn w + 32 ..< drawn w + 48])"
    and tg: "(case cipher_auth_tag pf algorithm key s of
                 TagAbsent \<Rightarrow> authTag r = []
               | TagThrows \<Rightarrow> authTag r = to_hex (map (random_source pf) [drawn w + 48 ..< drawn w + 64])
               | Tag t \<Rightarrow> authTag r = to_hex t)"
    by blast
  from sized tg obtain tag where tag: "authTag r = to_hex tag" "length tag = 16"
    by (cases "cipher_auth_tag pf algorithm key s") (auto simp: tag_sized_def tagLength_def)
  show ?thesis
    using k e i tag by (auto simp: from_base64_to_base64 from_hex_to_hex)
qed

theorem encrypt_wire_format_witness:
  "tag_sized ref_platform
   \<and> fst (encrypt ref_platform (Some ref_key) (JStr ''Dana'') world0) =
       Inr \<lparr>encrypted =
         ''AwoRGB8mLTQ7QklQV15lbHN6gYiPlp2kq7K5wMfO1dzj6vH4/wYNFBsiKTA3PkVMCSMjIyMjIyMjIyMjIyMjI2dCTUI='',
         authTag = ''09232323232323232323232323232323'',
         iv = ''e3eaf1f8ff060d141b222930373e454c''\<rparr>
   \<and> (\<exists>salt iv0 tag ct.
         from_base64
           ''AwoRGB8mLTQ7QklQV15lbHN6gYiPlp2kq7K5wMfO1dzj6vH4/wYNFBsiKTA3PkVMCSMjIyMjIyMjIyMjIyMjI2dCTUI=''
           = salt @ iv0 @ tag @ ct
         \<and> length salt = 32 \<and> length iv0 = 16 \<and> length tag = 16
         \<and> to_hex tag = ''09232323232323232323232323232323'')"
proof -
  from encrypt_wire_format [OF ref_tag_sized ref_encrypt_Dana]
  obtain salt iv0 tag ct where
    "from_base64
       ''AwoRGB8mLTQ7QklQV15lbHN6gYiPlp2kq7K5wMfO1dzj6vH4/wYNFBsiKTA3PkVMCSMjIyMjIyMjIyMjIyMjI2dCTUI=''
       = salt @ iv0 @ tag @ ct"
    "length salt = 32" "length iv0 = 16" "length tag = 16"
    "to_hex tag = ''09232323232323232323232323232323''"
    by auto
  then show ?thesis
    using ref_tag_sized ref_encrypt_Dana by auto
qed

subsection \<open>C5: \<open>encryptObject\<close>\<close>

text \<open>
  C5, as the code has it. Let no name of the field list be \<open><g>Encrypted\<close> for a name
  \<open>g\<close> of the list. Then \<open>encryptObject\<close> returns whenever the platform and the master
  key let \<open>encrypt\<close> return, and it returns the object unchanged when no listed field
  holds a non-empty string. When it returns: each listed field that holds a non-empty
  string is gone and \<open><field>Encrypted\<close> holds the blob of an \<open>encrypt\<close> of its value;
  each other listed field is as it was; and each key that is not listed is as it was,
  unless it is the \<open><field>Encrypted\<close> of a listed field that was encrypted.
\<close>

theorem encryptObject_selective:
  assumes pn: "plain_names fs"
  shows "(scrypt_returns pf \<and> cipher_returns pf \<and> (\<exists>k. env_key = Some k \<and> 32 \<le> length k)
            \<longrightarrow> (\<exists>out w'. encryptObject pf env_key obj fs w = (Inr out, w')))
       \<and> ((\<forall>f \<in> set fs. \<not> encryptable obj f)
            \<longrightarrow> encryptObject pf env_key obj fs w = (Inr obj, w))
       \<and> (\<forall>out w'. encryptObject pf env_key obj fs w = (Inr out, w') \<longrightarrow>
            (\<forall>f \<in> set fs. encryptable obj f \<longrightarrow>
               map_of out f = None
               \<and> (\<exists>w0 r w1. encrypt pf env_key (get_prop (JObj obj) f) w0 = (Inr r, w1)
                     \<and> map_of out (f @ ''Encrypted'') = Some (JStr (encrypted r))))
            \<and> (\<forall>f \<in> set fs. \<not> encryptable obj f \<longrightarrow> map_of out f = map_of obj f)
            \<and> (\<forall>k. k \<notin> set fs \<and> (\<forall>f \<in> set fs. encryptable obj f \<longrightarrow> k \<noteq> f @ ''Encrypted'')
                  \<longrightarrow> map_of out k = map_of obj k))"
proof (intro conjI allI impI ballI)
  assume "scrypt_returns pf \<and> cipher_returns pf \<and> (\<exists>k. env_key = Some k \<and> 32 \<le> length k)"
  then show "\<exists>out w'. encryptObject pf env_key obj fs w = (Inr out, w')"
    using encryptObject_loop_returns [of pf _ obj fs obj w]
    by (auto simp: encryptObject_def)
next
  assume "\<forall>f \<in> set fs. \<not> encryptable obj f"
  then show "encryptObject pf env_key obj fs w = (Inr obj, w)"
    by (simp add: encryptObject_def encryptObject_loop_skip)
next
  fix out w' f
  assume r: "encryptObject pf env_key obj fs w = (Inr out, w')"
    and f: "f \<in> set fs" "encryptable obj f"
  from encryptObject_loop_field [OF r [unfolded encryptObject_def] pn f]
  show "map_of out f = None" by blast
  from encryptObject_loop_field [OF r [unfolded encryptObject_def] pn f]
  show "\<exists>w0 r w1. encrypt pf env_key (get_prop (JObj obj) f) w0 = (Inr r, w1)
           \<and> map_of out (f @ ''Encrypted'') = Some (JStr (encrypted r))" by blast
next
  fix out w' f
  assume r: "encryptObject pf env_key obj fs w = (Inr out, w')"
    and f: "f \<in> set fs" "\<not> encryptable obj f"
  have "\<forall>h \<in> set fs. encryptable obj h \<longrightarrow> f \<noteq> h \<and> f \<noteq> h @ ''Encrypted''"
    using f pn by (auto simp: plain_names_def)
  from encryptObject_loop_frame [OF r [unfolded encryptObject_def] this]
  show "map_of out f = map_of obj f" .
next
  fix out w' k
  assume r: "encryptObject pf env_key obj fs w = (Inr out, w')"
    and k: "k \<notin> set fs \<and> (\<forall>f \<in> set fs. encryptable obj f \<longrightarrow> k \<noteq> f @ ''Encrypted'')"
  then have "\<forall>h \<in> set fs. encryptable obj h \<longrightarrow> k \<noteq> h \<and> k \<noteq> h @ ''Encrypted''"
    by auto
  from encryptObject_loop_frame [OF r [unfolded encryptObject_def] this]
  show "map_of out k = map_of obj k" .
qed

theorem encryptObject_selective_witness:
  "plain_names [''firstName'']
   \<and> encryptable [(''firstName'', JStr ''Dana''), (''other'', JStr ''x'')] ''firstName''
   \<and> fst (encryptObject ref_platform (Some ref_key)
           [(''firstName'', JStr ''Dana''), (''other'', JStr ''x'')] [''firstName''] world0) =
       Inr [(''other'', JStr ''x''),
            (''firstNameEncrypted'',
             JStr ''AwoRGB8mLTQ7QklQV15lbHN6gYiPlp2kq7K5wMfO1dzj6vH4/wYNFBsiKTA3PkVMCSMjIyMjIyMjIyMjIyMjI2dCTUI='')]
   \<and> map_of [(''other'', JStr ''x''),
            (''firstNameEncrypted'',
             JStr ''AwoRGB8mLTQ7QklQV15lbHN6gYiPlp2kq7K5wMfO1dzj6vH4/wYNFBsiKTA3PkVMCSMjIyMjIyMjIyMjIyMjI2dCTUI='')]
         ''firstName'' = None
   \<and> map_of [(''other'', JStr ''x''),
            (''firstNameEncrypted'',
             JStr ''AwoRGB8mLTQ7QklQV15lbHN6gYiPlp2kq7K5wMfO1dzj6vH4/wYNFBsiKTA3PkVMCSMjIyMjIyMjIyMjIyMjI2dCTUI='')]
         ''other'' = map_of [(''firstName'', JStr ''Dana''), (''other'', JStr ''x'')] ''other''"
proof -
  have pn: "plain_names [''firstName'']" by (simp add: plain_names_def)
  have en: "encryptable [(''firstName'', JStr ''Dana''), (''other'', JStr ''x'')] ''firstName''"
    by (simp add: encryptable_def)
  from encryptObject_selective [OF pn, of ref_platform "Some ref_key"
      "[(''firstName'', JStr ''Dana''), (''other'', JStr ''x'')]" world0]
    ref_encryptObject_Dana en
  have "map_of [(''other'', JStr ''x''),
            (''firstNameEncrypted'',
             JStr ''AwoRGB8mLTQ7QklQV15lbHN6gYiPlp2kq7K5wMfO1dzj6vH4/wYNFBsiKTA3PkVMCSMjIyMjIyMjIyMjIyMjI2dCTUI='')]
         ''firstName'' = None"
    and "map_of [(''other'', JStr ''x''),
            (''firstNameEncrypted'',
             JStr ''AwoRGB8mLTQ7QklQV15lbHN6gYiPlp2kq7K5wMfO1dzj6vH4/wYNFBsiKTA3PkVMCSMjIyMjIyMjIyMjIyMjI2dCTUI='')]
         ''other'' = map_of [(''firstName'', JStr ''Dana''), (''other'', JStr ''x'')] ''other''"
    by auto
  with pn en ref_encryptObject_Dana show ?thesis by simp
qed

theorem encryptObject_selective_counterexample:
  "fst (encryptObject ref_platform (Some ref_key)
          [(''firstName'', JStr ''Dana''), (''firstNameEncrypted'', JStr ''old'')]
          [''firstName''] world0) =
     Inr [(''firstNameEncrypted'',
           JStr ''AwoRGB8mLTQ7QklQV15lbHN6gYiPlp2kq7K5wMfO1dzj6vH4/wYNFBsiKTA3PkVMCSMjIyMjIyMjIyMjIyMjI2dCTUI='')]
   \<and> fst (encryptObject ref_platform (Some ref_key)
          [(''a'', JStr ''x''), (''aEncrypted'', JStr ''y'')] [''a'', ''aEncrypted''] world0) =
     Inr [(''aEncryptedEncrypted'',
           JStr ''U1phaG92fYSLkpmgp661vMPK0djf5u30+wIJEBceJSwzOkFIT1ZdZGtyeYCHjpWceXNzc3Nzc3Nzc3Nzc3Nzcwo='')]
   \<and> fst (encryptObject ref_platform None
          [(''firstName'', JStr ''Dana''), (''other'', JStr ''x'')] [''firstName''] world0) =
     Inl (Error ''Error al cifrar los datos'')"
  using ref_encryptObject_stale ref_encryptObject_a ref_encryptObject_no_key
  by (intro conjI)

subsection \<open>C6: a read with a field that does not decrypt\<close>

text \<open>
  C6. On a read of \<open>UserProfile\<close> (\<open>findUnique\<close>, \<open>findFirst\<close>, \<open>findMany\<close>) to which the
  storage answers an array, the hook returns an array of as many items and throws
  nothing, whatever the items hold. Item by item and field by field (\<open>item_read\<close>): a
  sensitive field whose \<open><field>Encrypted\<close> decrypts is replaced by the plaintext; one
  whose \<open><field>Encrypted\<close> fails to decrypt keeps that key and gets no plaintext key;
  every other key is as it was. The same holds for an answer that is a single item.
\<close>

theorem read_hook_isolates_failures:
  assumes rd: "is_read p"
  shows "(\<forall>items. next p = Inr (JArr items) \<longrightarrow>
            (\<exists>items' w'. middleware pf env_key p next w = (Inr (JArr items'), w')
               \<and> length items' = length items
               \<and> list_all2 (item_read pf env_key) items items'))
       \<and> (\<forall>item. next p = Inr item \<and> \<not> is_array item \<longrightarrow>
            (\<exists>item' w'. middleware pf env_key p next w = (Inr item', w')
               \<and> item_read pf env_key item item'))"
proof (intro conjI allI impI)
  fix items
  assume nx: "next p = Inr (JArr items)"
  obtain items' w' where d: "decrypt_items pf env_key items (emit (EvNext p) w) = (items', w')"
    by (cases "decrypt_items pf env_key items (emit (EvNext p) w)")
  from decrypt_items_item_read [OF d] have rel: "list_all2 (item_read pf env_key) items items'" .
  then have "length items' = length items" by (simp add: list_all2_lengthD)
  moreover have "middleware pf env_key p next w = (Inr (JArr items'), w')"
    using rd nx d
    by (simp add: middleware_def encrypt_stage_not_write is_read_not_write decrypt_stage_def)
  ultimately show "\<exists>items' w'. middleware pf env_key p next w = (Inr (JArr items'), w')
               \<and> length items' = length items
               \<and> list_all2 (item_read pf env_key) items items'"
    using rel by blast
next
  fix item
  assume nx: "next p = Inr item \<and> \<not> is_array item"
  show "\<exists>item' w'. middleware pf env_key p next w = (Inr item', w')
               \<and> item_read pf env_key item item'"
  proof (cases "truthy item")
    case True
    obtain item' w' where
      d: "decrypt_fields pf env_key sensitiveFields item (emit (EvNext p) w) = (item', w')"
      by (cases "decrypt_fields pf env_key sensitiveFields item (emit (EvNext p) w)")
    have "middleware pf env_key p next w = (Inr item', w')"
      using rd nx d True
      by (cases item)
         (simp_all add: middleware_def encrypt_stage_not_write is_read_not_write decrypt_stage_def)
    with decrypt_fields_item_read [OF d] show ?thesis by blast
  next
    case False
    have "middleware pf env_key p next w = (Inr item, emit (EvNext p) w)"
      using rd nx False
      by (simp add: middleware_def encrypt_stage_not_write is_read_not_write decrypt_stage_def)
    with item_read_same [OF falsy_not_object [OF False]] show ?thesis by blast
  qed
qed

theorem read_hook_isolates_failures_witness:
  "is_read find_many
   \<and> fst (middleware ref_platform (Some ref_key) find_many
           (\<lambda>q. Inr (JArr [record_corrupted, record_valid])) world0) =
       Inr (JArr [JObj [(''id'', JNum 1), (''phoneEncrypted'', JStr ''corrupted'')],
                  JObj [(''id'', JNum 2), (''phone'', JStr ''555-1234'')]])
   \<and> list_all2 (item_read ref_platform (Some ref_key))
         [record_corrupted, record_valid]
         [JObj [(''id'', JNum 1), (''phoneEncrypted'', JStr ''corrupted'')],
          JObj [(''id'', JNum 2), (''phone'', JStr ''555-1234'')]]"
proof -
  have rd: "is_read find_many" by (simp add: is_read_def find_many_def)
  from read_hook_isolates_failures [OF rd, of "\<lambda>q. Inr (JArr [record_corrupted, record_valid])"
      ref_platform "Some ref_key" world0]
  obtain items' w' where
    "middleware ref_platform (Some ref_key) find_many
       (\<lambda>q. Inr (JArr [record_corrupted, record_valid])) world0 = (Inr (JArr items'), w')"
    and "list_all2 (item_read ref_platform (Some ref_key)) [record_corrupted, record_valid] items'"
    by auto
  with ref_find_many rd show ?thesis by simp
qed

subsection \<open>C7: a write whose encryption fails\<close>

text \<open>
  C7. \<open>encrypt\<close> logs \<open>Error en cifrado:\<close> when, and only when, it fails. If that
  log is among the events of a call of the hook, so if an encryption failed during the
  call, then the call is a \<open>create\<close> or \<open>update\<close> of \<open>UserProfile\<close>, it throws
  \<open>Error('Error al cifrar los datos')\<close>, and \<open>next\<close> has not been called: nothing
  reached the storage.
\<close>

theorem write_aborts_on_encryption_failure:
  "(\<forall>v w0. (\<exists>e. fst (encrypt pf env_key v w0) = Inl e)
        \<longleftrightarrow> EvConsoleError ''Error en cifrado:''
             \<in> set (new_events w0 (snd (encrypt pf env_key v w0))))
   \<and> (\<forall>res w'. middleware pf env_key p next w = (res, w')
          \<and> EvConsoleError ''Error en cifrado:'' \<in> set (new_events w w')
        \<longrightarrow> res = Inl (Error ''Error al cifrar los datos'')
            \<and> (\<forall>q. EvNext q \<notin> set (new_events w w'))
            \<and> is_write p)"
proof (rule conjI)
  show "\<forall>v w0. (\<exists>e. fst (encrypt pf env_key v w0) = Inl e)
        \<longleftrightarrow> EvConsoleError ''Error en cifrado:''
             \<in> set (new_events w0 (snd (encrypt pf env_key v w0)))"
    by (intro allI) (rule encrypt_fails_iff_logged)
next
  show "\<forall>res w'. middleware pf env_key p next w = (res, w')
          \<and> EvConsoleError ''Error en cifrado:'' \<in> set (new_events w w')
        \<longrightarrow> res = Inl (Error ''Error al cifrar los datos'')
            \<and> (\<forall>q. EvNext q \<notin> set (new_events w w'))
            \<and> is_write p"
  proof (intro allI impI)
    fix res w'
    assume both: "middleware pf env_key p next w = (res, w')
          \<and> EvConsoleError ''Error en cifrado:'' \<in> set (new_events w w')"
    then have run: "middleware pf env_key p next w = (res, w')"
      and failed: "EvConsoleError ''Error en cifrado:'' \<in> set (new_events w w')"
      by simp_all
    obtain x w1 where st: "encrypt_stage pf env_key p w = (x, w1)"
      by (cases "encrypt_stage pf env_key p w")
    show "res = Inl (Error ''Error al cifrar los datos'')
            \<and> (\<forall>q. EvNext q \<notin> set (new_events w w'))
            \<and> is_write p"
    proof (cases x)
      case (Inl e)
      from middleware_Inl [OF st [unfolded Inl], of "next"] run have r: "res = Inl e" "w' = w1"
        by simp_all
      from encrypt_stage_Inl [OF st [unfolded Inl]] have wr: "is_write p"
        and a: "adds (\<lambda>e. \<not> is_next e) w w1"
        and e: "e = Error ''Error al cifrar los datos'' \<or> w1 = w" by simp_all
      from failed r e have "e = Error ''Error al cifrar los datos''" by auto
      moreover from adds_new_events [OF a] r have "\<forall>q. EvNext q \<notin> set (new_events w w')"
        by auto
      ultimately show ?thesis using r wr by simp
    next
      case (Inr p1)
      from encrypt_stage_Inr [OF st [unfolded Inr]] have a: "adds is_cipher_op w w1" by simp
      from middleware_Inr [OF st [unfolded Inr], of "next"] run
      have b: "adds read_event (emit (EvNext p1) w1) w'" by auto
      have n: "new_events w w'
          = new_events w w1 @ [EvNext p1] @ new_events (emit (EvNext p1) w1) w'"
      proof -
        have "adds (\<lambda>e. True) w (emit (EvNext p1) w1)"
          using a by (auto simp: adds_def emit_def)
        from new_events_trans [OF this b] new_events_emit [OF a]
        show ?thesis by simp
      qed
      have "EvConsoleError ''Error en cifrado:'' \<notin> set (new_events w w1)"
        using adds_new_events [OF a] by auto
      moreover have "EvConsoleError ''Error en cifrado:''
          \<notin> set (new_events (emit (EvNext p1) w1) w')"
        using adds_new_events [OF b] by (auto simp: read_event_def)
      ultimately have False using failed n by simp
      then show ?thesis ..
    qed
  qed
qed

theorem write_aborts_on_encryption_failure_witness:
  "EvConsoleError ''Error en cifrado:''
     \<in> set (new_events world0
          (snd (middleware ref_platform (Some ref_key) create_profile
                  (\<lambda>q. Inr (get_prop (args q) ''data'')) world0)))
   \<and> fst (middleware ref_platform (Some ref_key) create_profile
           (\<lambda>q. Inr (get_prop (args q) ''data'')) world0)
       = Inl (Error ''Error al cifrar los datos'')
   \<and> filter is_next
         (new_events world0
            (snd (middleware ref_platform (Some ref_key) create_profile
                    (\<lambda>q. Inr (get_prop (args q) ''data'')) world0))) = []
   \<and> is_write create_profile"
proof -
  have f: "EvConsoleError ''Error en cifrado:''
     \<in> set (new_events world0
          \<lparr>drawn = 96,
           events = [EvRandomBytes 32, EvRandomBytes 16, EvScrypt, EvCreateCipher, EvGetAuthTag,
               EvRandomBytes 32, EvRandomBytes 16, EvScrypt, EvCreateCipher,
               EvConsoleError ''Error en cifrado:'']\<rparr>)"
    by (simp add: new_events_def world0_def)
  from write_aborts_on_encryption_failure
      [of ref_platform "Some ref_key" create_profile "\<lambda>q. Inr (get_prop (args q) ''data'')" world0]
    ref_create_profile f
  have "filter is_next (new_events world0
          \<lparr>drawn = 96,
           events = [EvRandomBytes 32, EvRandomBytes 16, EvScrypt, EvCreateCipher, EvGetAuthTag,
               EvRandomBytes 32, EvRandomBytes 16, EvScrypt, EvCreateCipher,
               EvConsoleError ''Error en cifrado:'']\<rparr>) = []"
    and "is_write create_profile"
    by (auto simp: filter_empty_conv is_next.simps elim: is_next.elims)
  with f show ?thesis
    by (simp only: ref_create_profile fst_conv snd_conv)
qed

subsection \<open>C8: two encryptions of one text\<close>

text \<open>
  C8, as the code has it. Two calls of \<open>encrypt\<close> on the same text that both return:
  when the 48 bytes they draw for salt and IV differ somewhere, the blobs differ; when
  the bytes they draw are the same, the two results are the same.
\<close>

theorem encrypt_blobs_differ:
  assumes e1: "encrypt pf env_key text w1 = (Inr r1, w1')"
    and e2: "encrypt pf env_key text w2 = (Inr r2, w2')"
  shows "((\<exists>i<48. random_source pf (drawn w1 + i) \<noteq> random_source pf (drawn w2 + i))
            \<longrightarrow> encrypted r1 \<noteq> encrypted r2)
         \<and> ((\<forall>i<64. random_source pf (drawn w1 + i) = random_source pf (drawn w2 + i))
            \<longrightarrow> r1 = r2)"
proof -
  let ?rs = "random_source pf"
  from e1 have t1: "encrypt_try pf env_key text w1 = (Inr r1, w1')" by (simp add: encrypt_Inr_iff)
  from e2 have t2: "encrypt_try pf env_key text w2 = (Inr r2, w2')" by (simp add: encrypt_Inr_iff)
  from encrypt_try_InrD [OF t1] obtain masterKey s key1 ct1 where
    k1: "env_key = Some masterKey" "text = JStr s"
      "scrypt pf masterKey (map ?rs [drawn w1 ..< drawn w1 + 32]) keyLength = Some key1"
      "cipher_run pf algorithm key1 s = Some ct1"
    and b1: "encrypted r1 = to_base64 (map ?rs [drawn w1 ..< drawn w1 + 32]
                 @ map ?rs [drawn w1 + 32 ..< drawn w1 + 48] @ from_hex (authTag r1) @ ct1)"
    and i1: "iv r1 = to_hex (map ?rs [drawn w1 + 32 ..< drawn w1 + 48])"
    and g1: "(case cipher_auth_tag pf algorithm key1 s of
                 TagAbsent \<Rightarrow> authTag r1 = []
               | TagThrows \<Rightarrow> authTag r1 = to_hex (map ?rs [drawn w1 + 48 ..< drawn w1 + 64])
               | Tag t \<Rightarrow> authTag r1 = to_hex t)"
    by blast
  from encrypt_try_InrD [OF t2] k1(1,2) obtain key2 ct2 where
    k2: "scrypt pf masterKey (map ?rs [drawn w2 ..< drawn w2 + 32]) keyLength = Some key2"
      "cipher_run pf algorithm key2 s = Some ct2"
    and b2: "encrypted r2 = to_base64 (map ?rs [drawn w2 ..< drawn w2 + 32]
                 @ map ?rs [drawn w2 + 32 ..< drawn w2 + 48] @ from_hex (authTag r2) @ ct2)"
    and i2: "iv r2 = to_hex (map ?rs [drawn w2 + 32 ..< drawn w2 + 48])"
    and g2: "(case cipher_auth_tag pf algorithm key2 s of
                 TagAbsent \<Rightarrow> authTag r2 = []
               | TagThrows \<Rightarrow> authTag r2 = to_hex (map ?rs [drawn w2 + 48 ..< drawn w2 + 64])
               | Tag t \<Rightarrow> authTag r2 = to_hex t)"
    by auto
  have split48: "map ?rs [d ..< d + 32] @ map ?rs [d + 32 ..< d + 48] = map ?rs [d ..< d + 48]" for d
  proof -
    have "[d ..< d + 48] = [d ..< d + 32] @ [d + 32 ..< d + 48]"
      using upt_add_eq_append [of d "d + 32" 16] by (simp add: add.commute)
    then show ?thesis by simp
  qed
  have differ: "encrypted r1 \<noteq> encrypted r2"
    if "\<exists>i<48. ?rs (drawn w1 + i) \<noteq> ?rs (drawn w2 + i)"
  proof
    assume "encrypted r1 = encrypted r2"
    with b1 b2 have "(map ?rs [drawn w1 ..< drawn w1 + 32] @ map ?rs [drawn w1 + 32 ..< drawn w1 + 48])
        @ from_hex (authTag r1) @ ct1
      = (map ?rs [drawn w2 ..< drawn w2 + 32] @ map ?rs [drawn w2 + 32 ..< drawn w2 + 48])
        @ from_hex (authTag r2) @ ct2"
      by (auto dest: to_base64_inject)
    then have "map ?rs [drawn w1 ..< drawn w1 + 48] = map ?rs [drawn w2 ..< drawn w2 + 48]"
      unfolding split48 by simp
    moreover from that obtain i where "i < 48" "?rs (drawn w1 + i) \<noteq> ?rs (drawn w2 + i)"
      by blast
    ultimately show False using map_upt_neq [of i 48 ?rs "drawn w1" ?rs "drawn w2"] by simp
  qed
  have same: "r1 = r2" if eq: "\<forall>i<64. ?rs (drawn w1 + i) = ?rs (drawn w2 + i)"
  proof -
    have s: "map ?rs [drawn w1 ..< drawn w1 + 32] = map ?rs [drawn w2 ..< drawn w2 + 32]"
      using map_upt_offset_cong [OF eq, of 0 32] by simp
    have i: "map ?rs [drawn w1 + 32 ..< drawn w1 + 48] = map ?rs [drawn w2 + 32 ..< drawn w2 + 48]"
      using map_upt_offset_cong [OF eq, of 32 16] by simp
    have x: "map ?rs [drawn w1 + 48 ..< drawn w1 + 64] = map ?rs [drawn w2 + 48 ..< drawn w2 + 64]"
      using map_upt_offset_cong [OF eq, of 48 16] by simp
    from k1 k2 s have key: "key2 = key1" by simp
    with k1 k2 have ct: "ct2 = ct1" by simp
    from g1 g2 key x have tag: "authTag r1 = authTag r2"
      by (cases "cipher_auth_tag pf algorithm key1 s") simp_all
    from b1 b2 i1 i2 s i ct tag show ?thesis by simp
  qed
  from differ same show ?thesis by blast
qed

theorem encrypt_blobs_differ_witness:
  "random_source ref_platform (drawn world0 + 0) \<noteq> random_source ref_platform (48 + 0)
   \<and> ''AwoRGB8mLTQ7QklQV15lbHN6gYiPlp2kq7K5wMfO1dzj6vH4/wYNFBsiKTA3PkVMCSMjIyMjIyMjIyMjIyMjI2dCTUI=''
       \<noteq> ''U1phaG92fYSLkpmgp661vMPK0djf5u30+wIJEBceJSwzOkFIT1ZdZGtyeYCHjpWcWXNzc3Nzc3Nzc3Nzc3NzczcSHRI=''"
proof -
  have d: "random_source ref_platform (drawn world0 + 0) \<noteq> random_source ref_platform (48 + 0)"
    by (simp add: ref_platform_def world0_def)
  then have "\<exists>i<48. random_source ref_platform (drawn world0 + i)
      \<noteq> random_source ref_platform
          (drawn \<lparr>drawn = 48, events = [EvRandomBytes 32, EvRandomBytes 16, EvScrypt,
             EvCreateCipher, EvGetAuthTag]\<rparr> + i)"
    by (intro exI [of _ 0]) simp
  with encrypt_blobs_differ [OF ref_encrypt_Dana ref_encrypt_Dana_again] d
  show ?thesis by simp
qed

theorem encrypt_same_blob_counterexample:
  "fst (encrypt repeating_platform (Some ref_key) (JStr ''Dana'') world0) =
     Inr \<lparr>encrypted =
       ''AAAAAAAAAAAAAAAAAAAAAAAAAAAAAAAAAAAAAAAAAAAAAAAAAAAAAAAAAAAAAAAACiAgICAgICAgICAgICAgIGRBTkE='',
       authTag = ''0a202020202020202020202020202020'',
       iv = ''00000000000000000000000000000000''\<rparr>
   \<and> fst (encrypt repeating_platform (Some ref_key) (JStr ''Dana'')
          (snd (encrypt repeating_platform (Some ref_key) (JStr ''Dana'') world0))) =
     Inr \<lparr>encrypted =
       ''AAAAAAAAAAAAAAAAAAAAAAAAAAAAAAAAAAAAAAAAAAAAAAAAAAAAAAAAAAAAAAAACiAgICAgICAgICAgICAgIGRBTkE='',
       authTag = ''0a202020202020202020202020202020'',
       iv = ''00000000000000000000000000000000''\<rparr>"
  by code_simp

subsection \<open>C9: \<open>isEncrypted\<close>\<close>

text \<open>
  C9. \<open>isEncrypted\<close> of a string is true exactly when the string decodes to at least
  65 bytes; of a value that is not a string it is false (the \<open>catch\<close>), so it never
  throws; and some string for which it is true is the blob of no call of \<open>encrypt\<close>, on
  any platform.
\<close>

theorem isEncrypted_iff:
  "(\<forall>s. isEncrypted (JStr s) \<longleftrightarrow> 65 \<le> length (from_base64 s))
   \<and> (\<forall>v. \<not> is_string v \<longrightarrow> \<not> isEncrypted v)
   \<and> (\<exists>s. isEncrypted (JStr s)
         \<and> (\<forall>pf env_key text w r w'.
               encrypt pf env_key text w = (Inr r, w') \<longrightarrow> encrypted r \<noteq> s))"
proof (intro conjI allI impI)
  fix s
  show "isEncrypted (JStr s) \<longleftrightarrow> 65 \<le> length (from_base64 s)"
    by (simp add: isEncrypted_def saltLength_def ivLength_def tagLength_def)
next
  fix v
  assume "\<not> is_string v"
  then show "\<not> isEncrypted v"
    by (cases v) (simp_all add: isEncrypted_def)
next
  let ?s = "replicate 87 (CHR ''A'')"
  have "isEncrypted (JStr ?s)" by code_simp
  with encrypt_blob_not_87 show "\<exists>s. isEncrypted (JStr s)
         \<and> (\<forall>pf env_key text w r w'.
               encrypt pf env_key text w = (Inr r, w') \<longrightarrow> encrypted r \<noteq> s)"
    by blast
qed

theorem isEncrypted_iff_witness:
  "isEncrypted (JStr (replicate 88 (CHR ''A'')))
   \<and> \<not> isEncrypted (JStr (replicate 86 (CHR ''A'')))
   \<and> \<not> isEncrypted JNull"
proof -
  have a: "65 \<le> length (from_base64 (replicate 88 (CHR ''A'')))" by code_simp
  have b: "\<not> 65 \<le> length (from_base64 (replicate 86 (CHR ''A'')))" by code_simp
  show ?thesis using isEncrypted_iff a b by simp
qed

subsection \<open>C10: what the hook leaves alone\<close>

text \<open>
  C10. Unless the model is \<open>UserProfile\<close> and the action \<open>create\<close> or \<open>update\<close>, the
  first thing the hook does is to call \<open>next\<close> with the params it was given. Unless
  the model is \<open>UserProfile\<close> and the action \<open>findUnique\<close>, \<open>findFirst\<close> or \<open>findMany\<close>,
  what the hook returns is what \<open>next\<close> answered. For every other model or action
  (\<open>upsert\<close>, \<open>updateMany\<close>, \<open>createMany\<close>, \<dots>) the hook is \<open>next\<close> itself: a sensitive
  field of such a write reaches the storage as plaintext.
\<close>

theorem hook_passes_through:
  "(\<not> (model p = Some ''UserProfile'' \<and> (action p = ''create'' \<or> action p = ''update''))
      \<longrightarrow> (\<exists>res w' es. middleware pf env_key p next w = (res, w')
             \<and> new_events w w' = EvNext p # es))
   \<and> (\<not> (model p = Some ''UserProfile''
          \<and> (action p = ''findUnique'' \<or> action p = ''findFirst'' \<or> action p = ''findMany''))
      \<longrightarrow> (\<forall>res w' q. middleware pf env_key p next w = (res, w')
               \<and> EvNext q \<in> set (new_events w w')
             \<longrightarrow> res = next q))
   \<and> (\<not> (model p = Some ''UserProfile''
          \<and> (action p = ''create'' \<or> action p = ''update'' \<or> action p = ''findUnique''
               \<or> action p = ''findFirst'' \<or> action p = ''findMany''))
      \<longrightarrow> middleware pf env_key p next w = (next p, emit (EvNext p) w))"
proof (intro conjI impI allI)
  assume "\<not> (model p = Some ''UserProfile'' \<and> (action p = ''create'' \<or> action p = ''update''))"
  then have "\<not> is_write p" by (auto simp: is_write_def)
  then have st: "encrypt_stage pf env_key p w = (Inr p, w)" by (rule encrypt_stage_not_write)
  from middleware_Inr [OF st, of "next"] obtain res w' where
    m: "middleware pf env_key p next w = (res, w')"
    and b: "adds read_event (emit (EvNext p) w) w'" by blast
  have "adds (\<lambda>e. True) w (emit (EvNext p) w)" by (rule adds_emit) simp
  moreover have "new_events w (emit (EvNext p) w) = [EvNext p]"
    by (simp add: new_events_def emit_def)
  ultimately have "new_events w w' = EvNext p # new_events (emit (EvNext p) w) w'"
    using new_events_trans [OF _ b] by fastforce
  with m show "\<exists>res w' es. middleware pf env_key p next w = (res, w')
             \<and> new_events w w' = EvNext p # es" by blast
next
  fix res w' q
  assume nr: "\<not> (model p = Some ''UserProfile''
          \<and> (action p = ''findUnique'' \<or> action p = ''findFirst'' \<or> action p = ''findMany''))"
    and run: "middleware pf env_key p next w = (res, w')
               \<and> EvNext q \<in> set (new_events w w')"
  from nr have nrd: "\<not> is_read p" by (auto simp: is_read_def)
  obtain x w1 where st: "encrypt_stage pf env_key p w = (x, w1)"
    by (cases "encrypt_stage pf env_key p w")
  show "res = next q"
  proof (cases x)
    case (Inl e)
    from middleware_Inl [OF st [unfolded Inl], of "next"] run have "w' = w1" by simp
    with encrypt_stage_Inl [OF st [unfolded Inl]] adds_new_events [of "\<lambda>e. \<not> is_next e" w w1] run
    show ?thesis by auto
  next
    case (Inr p1)
    from encrypt_stage_Inr [OF st [unfolded Inr]] have a: "adds is_cipher_op w w1" by simp
    from middleware_Inr [OF st [unfolded Inr], of "next"] run nrd
    have r: "res = next p1" "w' = emit (EvNext p1) w1" by auto
    from new_events_emit [OF a] r
    have "new_events w w' = new_events w w1 @ [EvNext p1]" by simp
    with run adds_new_events [OF a] have "q = p1" by auto
    with r show ?thesis by simp
  qed
next
  assume n: "\<not> (model p = Some ''UserProfile''
          \<and> (action p = ''create'' \<or> action p = ''update'' \<or> action p = ''findUnique''
               \<or> action p = ''findFirst'' \<or> action p = ''findMany''))"
  then have "\<not> is_write p" and nrd: "\<not> is_read p" by (auto simp: is_write_def is_read_def)
  then have st: "encrypt_stage pf env_key p w = (Inr p, w)"
    by (simp add: encrypt_stage_not_write)
  from middleware_Inr [OF st, of "next"] nrd
  show "middleware pf env_key p next w = (next p, emit (EvNext p) w)" by auto
qed

theorem hook_passes_through_witness:
  "middleware ref_platform (Some ref_key) upsert_profile
     (\<lambda>q. Inr (get_prop (args q) ''create'')) world0 =
   (Inr (JObj [(''firstName'', JStr ''Dana'')]),
    \<lparr>drawn = 0, events = [EvNext upsert_profile]\<rparr>)"
proof -
  have "\<not> (model upsert_profile = Some ''UserProfile''
          \<and> (action upsert_profile = ''create'' \<or> action upsert_profile = ''update''
               \<or> action upsert_profile = ''findUnique''
               \<or> action upsert_profile = ''findFirst'' \<or> action upsert_profile = ''findMany''))"
    by (simp add: upsert_profile_def)
  with hook_passes_through [of upsert_profile ref_platform "Some ref_key"
      "\<lambda>q. Inr (get_prop (args q) ''create'')" world0]
  have "middleware ref_platform (Some ref_key) upsert_profile
     (\<lambda>q. Inr (get_prop (args q) ''create'')) world0 =
     (Inr (get_prop (args upsert_profile) ''create''), emit (EvNext upsert_profile) world0)"
    by blast
  then show ?thesis by (simp add: upsert_profile_def emit_def world0_def)
qed

end
